theory Spec2Isabelle
  imports Main "HOL-Library.Word" "HOL-Library.Monad_Syntax"
begin

unbundle bit_operations_syntax

section \<open>Python primitives used by the MODBUS parser\<close>

text \<open>
  The parser of \<^verbatim>\<open>src/parsers/modbus_parser/parser.py\<close> works on Python
  \<^verbatim>\<open>bytes\<close>. A byte is an 8-bit word; indexing a \<^verbatim>\<open>bytes\<close> object
  gives a Python int between 0 and 255. Every integer the parser computes is built from
  such values with shifts, bitwise or and additions, so it is never negative and is
  modelled as a natural number. The only subtraction, \<^verbatim>\<open>8+length-2\<close>, is never
  below 6.
\<close>

type_synonym byte = "8 word"
type_synonym bytes = "byte list"

text \<open>
  \<^verbatim>\<open>b[i]\<close> for an index that is not negative: an index past the end raises
  IndexError, which is the value \<open>None\<close> here.
\<close>

definition getitem :: "bytes \<Rightarrow> nat \<Rightarrow> nat option" where
  "getitem b i = (if i < length b then Some (unat (b ! i)) else None)"

text \<open>
  \<^verbatim>\<open>b[lo:hi]\<close> for bounds that are not negative: the slice never raises, it is
  cut at the end of \<open>b\<close> and is empty when \<open>hi \<le> lo\<close>.
\<close>

definition slice :: "bytes \<Rightarrow> nat \<Rightarrow> nat \<Rightarrow> bytes" where
  "slice b lo hi = take (hi - lo) (drop lo b)"

text \<open>\<^verbatim>\<open>b.hex()\<close>: two lower-case hexadecimal digits per byte.\<close>

definition hex_digit :: "nat \<Rightarrow> char" where
  "hex_digit d = ''0123456789abcdef'' ! d"

definition hex :: "bytes \<Rightarrow> string" where
  "hex b = concat (map (\<lambda>x. [hex_digit (unat x div 16), hex_digit (unat x mod 16)]) b)"

text \<open>
  \<^verbatim>\<open>b.decode('ascii', errors='replace')\<close>: a Python string, as the list of its code
  points. A byte above 127 becomes the replacement character U+FFFD; the call never raises.
\<close>

definition decode_ascii :: "bytes \<Rightarrow> nat list" where
  "decode_ascii b = map (\<lambda>x. if unat x < 128 then unat x else 65533) b"

text \<open>\<^verbatim>\<open>str(n)\<close> for an int that is not negative: its decimal digits.\<close>

definition dec_digit :: "nat \<Rightarrow> char" where
  "dec_digit d = ''0123456789'' ! d"

function str_nat :: "nat \<Rightarrow> string" where
  "str_nat n = (if n < 10 then [dec_digit n] else str_nat (n div 10) @ [dec_digit (n mod 10)])"
  by pat_completeness auto
termination
  by (relation "measure (\<lambda>n. n)") auto

declare str_nat.simps [simp del]

text \<open>
  \<^verbatim>\<open>range(start, stop, step)\<close> for a positive step. (Python refuses a step of 0;
  the parser only uses the step 2.)
\<close>

function range_step :: "nat \<Rightarrow> nat \<Rightarrow> nat \<Rightarrow> nat list" where
  "range_step start stop step =
     (if step = 0 \<or> stop \<le> start then [] else start # range_step (start + step) stop step)"
  by pat_completeness auto
termination
  by (relation "measure (\<lambda>(start, stop, step). stop - start)") auto

declare range_step.simps [simp del]

text \<open>
  A \<^verbatim>\<open>for\<close> loop whose body may raise: the body takes the loop variable and the
  state, and the first \<open>None\<close> ends the loop with \<open>None\<close>.
\<close>

fun for_each :: "'a list \<Rightarrow> ('a \<Rightarrow> 's \<Rightarrow> 's option) \<Rightarrow> 's \<Rightarrow> 's option" where
  "for_each [] body s = Some s"
| "for_each (x # xs) body s = (case body x s of None \<Rightarrow> None | Some s' \<Rightarrow> for_each xs body s')"

text \<open>
  A dict that keeps the order of insertion, as Python's does: \<^verbatim>\<open>d.get(k, dflt)\<close>
  and \<^verbatim>\<open>d[k] = v\<close>.
\<close>

definition dict_get :: "('k \<times> 'v) list \<Rightarrow> 'k \<Rightarrow> 'v \<Rightarrow> 'v" where
  "dict_get d k dflt = (case map_of d k of None \<Rightarrow> dflt | Some v \<Rightarrow> v)"

fun dict_set :: "('k \<times> 'v) list \<Rightarrow> 'k \<Rightarrow> 'v \<Rightarrow> ('k \<times> 'v) list" where
  "dict_set [] k v = [(k, v)]"
| "dict_set ((k', v') # d) k v = (if k' = k then (k, v) # d else (k', v') # dict_set d k v)"

section \<open>The parser's data\<close>

text \<open>\<^verbatim>\<open>FUNCTION_CODES\<close>, the table of the names of the known function codes.\<close>

definition FUNCTION_CODES :: "(nat \<times> string) list" where
  "FUNCTION_CODES =
     [(1, ''Read Coils''),
      (2, ''Read Discrete Inputs''),
      (3, ''Read Holding Registers''),
      (4, ''Read Input Registers''),
      (5, ''Write Single Coil''),
      (6, ''Write Single Register''),
      (15, ''Write Multiple Coils''),
      (16, ''Write Multiple Registers''),
      (43, ''Read Device Identification'')]"

text \<open>One entry of the \<^verbatim>\<open>objects\<close> list of a device identification.\<close>

record device_object =
  object_id :: nat
  object_value :: "nat list"

text \<open>
  The dict \<^verbatim>\<open>_parse_function\<close> returns, one constructor per shape:
  \<^item> \<open>Error msg\<close> is \<^verbatim>\<open>{'error': msg}\<close>, returned when the payload is too short;
  \<^item> \<open>ReadValues byte_count vals\<close> is \<^verbatim>\<open>{'byte_count': ..., 'values': ...}\<close>;
  \<^item> \<open>WriteSingle address v\<close> is \<^verbatim>\<open>{'address': ..., 'value': ...}\<close>;
  \<^item> \<open>WriteMultiple address quantity\<close> is \<^verbatim>\<open>{'address': ..., 'quantity': ...}\<close>;
  \<^item> \<open>DeviceIdentification\<close> carries \<^verbatim>\<open>mei_type\<close>, \<^verbatim>\<open>reading_device_id\<close>,
    \<^verbatim>\<open>conformity_level\<close>, \<^verbatim>\<open>more_follows\<close>, \<^verbatim>\<open>next_object_id\<close> and
    \<^verbatim>\<open>objects\<close>;
  \<^item> \<open>Raw h\<close> is \<^verbatim>\<open>{'raw': payload.hex()}\<close>, for an unknown function code;
  \<^item> \<open>Caught h\<close> is \<^verbatim>\<open>{'error': str(e), 'raw': payload.hex()}\<close>, what the
    \<^verbatim>\<open>except\<close> clause returns after an exception.
\<close>

datatype parsed_data =
    Error string
  | ReadValues nat "nat list"
  | WriteSingle nat nat
  | WriteMultiple nat nat
  | DeviceIdentification nat nat nat nat nat "device_object list"
  | Raw string
  | Caught string

text \<open>The dict \<^verbatim>\<open>parse_packet\<close> builds for a frame it accepts.\<close>

record parsed_packet =
  transaction_id :: nat
  protocol_id :: nat
  length_field :: nat
  unit_id :: nat
  function_code :: nat
  function_name :: string
  payload :: parsed_data
  raw_data :: string

text \<open>The state of a \<^verbatim>\<open>ModbusParser\<close> object and the state \<^verbatim>\<open>__init__\<close> sets.\<close>

record parser =
  transaction_count :: nat
  packets :: "parsed_packet list"

definition init :: parser where
  "init = \<lparr>transaction_count = 0, packets = []\<rparr>"

text \<open>
  \<^verbatim>\<open>parse_packet\<close> returns \<^verbatim>\<open>None\<close> on three paths, each with its own log line:
  the frame is too short (a warning), the protocol id is not 0 (a warning that prints the
  id), or the \<^verbatim>\<open>except\<close> clause caught an exception (an error).
\<close>

datatype rejection = TooShort | InvalidProtocolId nat | PacketError

section \<open>Decoding the payload: \<^verbatim>\<open>_parse_function\<close>\<close>

text \<open>
  The loop over the data bytes of a bit-oriented read (function codes 1 and 2):
  \<^verbatim>\<open>for i in range(1, min(1 + byte_count, len(payload))): for bit in range(8): ...\<close>
\<close>

definition read_bits :: "bytes \<Rightarrow> nat \<Rightarrow> nat list option" where
  "read_bits pl byte_count =
     for_each [1..<min (1 + byte_count) (length pl)]
       (\<lambda>i. for_each [0..<8]
          (\<lambda>bit vals.
             if (i - 1) * 8 + bit < byte_count * 8
             then do { b \<leftarrow> getitem pl i; Some (vals @ [drop_bit bit b AND 1]) }
             else Some vals))
       []"

text \<open>
  The loop over the register pairs of a word-oriented read (function codes 3 and 4):
  \<^verbatim>\<open>for i in range(1, min(1 + byte_count, len(payload)), 2): if i + 1 < len(payload): ...\<close>
\<close>

definition read_registers :: "bytes \<Rightarrow> nat \<Rightarrow> nat list option" where
  "read_registers pl byte_count =
     for_each (range_step 1 (min (1 + byte_count) (length pl)) 2)
       (\<lambda>i vals.
          if i + 1 < length pl
          then do { hi \<leftarrow> getitem pl i; lo \<leftarrow> getitem pl (i + 1);
                    Some (vals @ [push_bit 8 hi OR lo]) }
          else Some vals)
       []"

text \<open>
  The loop over the objects of a device identification,
  \<^verbatim>\<open>for _ in range(object_count)\<close>, with its two \<^verbatim>\<open>break\<close>s. The first argument
  counts the iterations that are left.
\<close>

fun read_objects :: "nat \<Rightarrow> bytes \<Rightarrow> nat \<Rightarrow> device_object list \<Rightarrow> device_object list option" where
  "read_objects 0 pl offset objects = Some objects"
| "read_objects (Suc n) pl offset objects =
     (if offset + 1 \<ge> length pl then Some objects
      else do {
        oid \<leftarrow> getitem pl offset;
        olen \<leftarrow> getitem pl (offset + 1);
        (let offset2 = offset + 2 in
         if offset2 + olen > length pl then Some objects
         else read_objects n pl (offset2 + olen)
                (objects @ [\<lparr>object_id = oid,
                             object_value = decode_ascii (slice pl offset2 (offset2 + olen))\<rparr>]))
      })"

text \<open>The body of the \<^verbatim>\<open>try\<close> block; \<open>None\<close> when it raises.\<close>

definition parse_function_try :: "nat \<Rightarrow> bytes \<Rightarrow> parsed_data option" where
  "parse_function_try fc pl =
     (if fc \<in> set [1, 2, 3, 4] then
        if length pl < 1 then Some (Error ''Payload too short for read response'')
        else do {
          byte_count \<leftarrow> getitem pl 0;
          vals \<leftarrow> (if fc \<in> set [1, 2] then read_bits pl byte_count
                   else if fc \<in> set [3, 4] then read_registers pl byte_count
                   else Some []);
          Some (ReadValues byte_count vals)
        }
      else if fc \<in> set [5, 6] then
        if length pl < 4 then Some (Error ''Payload too short for write single response'')
        else do {
          a0 \<leftarrow> getitem pl 0; a1 \<leftarrow> getitem pl 1;
          v0 \<leftarrow> getitem pl 2; v1 \<leftarrow> getitem pl 3;
          (let address = push_bit 8 a0 OR a1;
               v = push_bit 8 v0 OR v1;
               v = (if fc = 5 then (if v = 65280 then 1 else 0) else v)
           in Some (WriteSingle address v))
        }
      else if fc \<in> set [15, 16] then
        if length pl < 4 then Some (Error ''Payload too short for write multiple response'')
        else do {
          a0 \<leftarrow> getitem pl 0; a1 \<leftarrow> getitem pl 1;
          q0 \<leftarrow> getitem pl 2; q1 \<leftarrow> getitem pl 3;
          Some (WriteMultiple (push_bit 8 a0 OR a1) (push_bit 8 q0 OR q1))
        }
      else if fc = 43 then
        if length pl < 6 then Some (Error ''Payload too short for device identification'')
        else do {
          mei_type \<leftarrow> getitem pl 0;
          reading_device_id \<leftarrow> getitem pl 1;
          conformity_level \<leftarrow> getitem pl 2;
          more_follows \<leftarrow> getitem pl 3;
          next_object_id \<leftarrow> getitem pl 4;
          object_count \<leftarrow> getitem pl 5;
          objects \<leftarrow> read_objects object_count pl 6 [];
          Some (DeviceIdentification mei_type reading_device_id conformity_level
                  more_follows next_object_id objects)
        }
      else Some (Raw (hex pl)))"

text \<open>\<^verbatim>\<open>_parse_function\<close>: the \<^verbatim>\<open>try\<close> block and its \<^verbatim>\<open>except\<close> clause.\<close>

definition parse_function :: "nat \<Rightarrow> bytes \<Rightarrow> parsed_data" where
  "parse_function fc pl =
     (case parse_function_try fc pl of
        Some parsed \<Rightarrow> parsed
      | None \<Rightarrow> Caught (hex pl))"

section \<open>Decoding a frame: \<^verbatim>\<open>parse_packet\<close>\<close>

text \<open>The five header fields, read from the first eight bytes.\<close>

definition parse_header :: "bytes \<Rightarrow> (nat \<times> nat \<times> nat \<times> nat \<times> nat) option" where
  "parse_header packet =
     do {
       b0 \<leftarrow> getitem packet 0; b1 \<leftarrow> getitem packet 1;
       b2 \<leftarrow> getitem packet 2; b3 \<leftarrow> getitem packet 3;
       b4 \<leftarrow> getitem packet 4; b5 \<leftarrow> getitem packet 5;
       uid \<leftarrow> getitem packet 6;
       fc \<leftarrow> getitem packet 7;
       Some (push_bit 8 b0 OR b1, push_bit 8 b2 OR b3, push_bit 8 b4 OR b5, uid, fc)
     }"

text \<open>
  The slice of the frame handed to \<^verbatim>\<open>_parse_function\<close>:
  \<^verbatim>\<open>packet[8:8+length-2] if 8+length-2 <= len(packet) else packet[8:]\<close>.
\<close>

definition payload_bytes :: "bytes \<Rightarrow> nat \<Rightarrow> bytes" where
  "payload_bytes packet len =
     (if 8 + len - 2 \<le> length packet then slice packet 8 (8 + len - 2) else drop 8 packet)"

text \<open>
  \<^verbatim>\<open>parse_packet\<close> takes the parser's state and a frame, and returns the new state
  with either the rejection (the source returns \<^verbatim>\<open>None\<close>) or the parsed packet.
  The calls of the logger change neither the state nor the result and are left out; the
  rejection tells which warning or error line the source logs. The \<^verbatim>\<open>except\<close>
  clause is the branch \<open>PacketError\<close>: in the \<^verbatim>\<open>try\<close> block only the reads of the
  header bytes can raise, before the state is touched.
\<close>

definition parse_packet :: "parser \<Rightarrow> bytes \<Rightarrow> parser \<times> (rejection + parsed_packet)" where
  "parse_packet s packet =
     (if packet = [] \<or> length packet < 8 then (s, Inl TooShort)
      else
        case parse_header packet of
          None \<Rightarrow> (s, Inl PacketError)
        | Some (tid, pid, len, uid, fc) \<Rightarrow>
            if pid \<noteq> 0 then (s, Inl (InvalidProtocolId pid))
            else
              let pl = payload_bytes packet len;
                  parsed = parse_function fc pl;
                  s1 = s\<lparr>transaction_count := transaction_count s + 1\<rparr>;
                  parsed_packet =
                    \<lparr>transaction_id = tid,
                     protocol_id = pid,
                     length_field = len,
                     unit_id = uid,
                     function_code = fc,
                     function_name =
                       dict_get FUNCTION_CODES fc (''Unknown ('' @ str_nat fc @ '')''),
                     payload = parsed,
                     raw_data = hex packet\<rparr>;
                  s2 = s1\<lparr>packets := packets s1 @ [parsed_packet]\<rparr>
              in (s2, Inr parsed_packet))"

text \<open>A parser fed a list of frames, one \<^verbatim>\<open>parse_packet\<close> call after the other.\<close>

definition parse_all :: "parser \<Rightarrow> bytes list \<Rightarrow> parser" where
  "parse_all s frames = fold (\<lambda>packet s'. fst (parse_packet s' packet)) frames s"

text \<open>
  The frame loop of the command line entry point:
  \<^verbatim>\<open>for packet in packets: parsed = modbus_parser.parse_packet(packet); if parsed: results.append(parsed)\<close>.
  \<open>frame_step\<close> is one pass through its body, on the parser's state and the list
  \<^verbatim>\<open>results\<close>; \<open>parse_frames\<close> is the loop, started with no result.
\<close>

definition frame_step ::
  "bytes \<Rightarrow> parser \<times> parsed_packet list \<Rightarrow> parser \<times> parsed_packet list" where
  "frame_step packet st =
     (case parse_packet (fst st) packet of
        (s', Inl r) \<Rightarrow> (s', snd st)
      | (s', Inr parsed) \<Rightarrow> (s', snd st @ [parsed]))"

definition parse_frames :: "parser \<Rightarrow> bytes list \<Rightarrow> parser \<times> parsed_packet list" where
  "parse_frames s frames = fold frame_step frames (s, [])"

section \<open>Statistics: \<^verbatim>\<open>get_statistics\<close>\<close>

text \<open>The four variables the loop over the stored packets updates.\<close>

record counters =
  function_counts :: "(nat \<times> nat) list"
  unit_ids :: "nat set"
  write_operations :: nat
  read_operations :: nat

definition count_packet :: "parsed_packet \<Rightarrow> counters \<Rightarrow> counters" where
  "count_packet packet c =
     (let fc = function_code packet;
          c1 = c\<lparr>function_counts :=
                   dict_set (function_counts c) fc (dict_get (function_counts c) fc 0 + 1)\<rparr>;
          c2 = c1\<lparr>unit_ids := insert (unit_id packet) (unit_ids c1)\<rparr>
      in if fc \<in> set [1, 2, 3, 4] then c2\<lparr>read_operations := read_operations c2 + 1\<rparr>
         else if fc \<in> set [5, 6, 15, 16] then c2\<lparr>write_operations := write_operations c2 + 1\<rparr>
         else c2)"

definition count_packets :: "parsed_packet list \<Rightarrow> counters" where
  "count_packets ps =
     fold count_packet ps
       \<lparr>function_counts = [], unit_ids = {}, write_operations = 0, read_operations = 0\<rparr>"

text \<open>
  The values of the statistics dict. \<^verbatim>\<open>list(unit_ids)\<close> lists a set in an order
  Python does not fix, so it is kept as a set.
\<close>

datatype stat = Count nat | Counts "(nat \<times> nat) list" | Ids "nat set"

definition get_statistics :: "parser \<Rightarrow> (string \<times> stat) list" where
  "get_statistics s =
     (if packets s = [] then [(''transaction_count'', Count 0)]
      else
        let c = count_packets (packets s)
        in [(''transaction_count'', Count (transaction_count s)),
            (''function_codes'', Counts (function_counts c)),
            (''unit_ids'', Ids (unit_ids c)),
            (''read_operations'', Count (read_operations c)),
            (''write_operations'', Count (write_operations c))])"

section \<open>Reference definitions for the payload decoder\<close>

text \<open>
  The fixed length guards of \<^verbatim>\<open>_parse_function\<close>: the number of payload bytes
  below which a function family returns its \<^verbatim>\<open>'Payload too short ...'\<close> error (1 for
  the reads, 4 for the writes, 6 for the device identification; an unknown code has no
  guard), and the message each guard returns.
\<close>

definition min_payload :: "nat \<Rightarrow> nat" where
  "min_payload fc =
     (if fc \<in> set [1, 2, 3, 4] then 1
      else if fc \<in> set [5, 6] then 4
      else if fc \<in> set [15, 16] then 4
      else if fc = 43 then 6
      else 0)"

definition short_message :: "nat \<Rightarrow> string" where
  "short_message fc =
     (if fc \<in> set [1, 2, 3, 4] then ''Payload too short for read response''
      else if fc \<in> set [5, 6] then ''Payload too short for write single response''
      else if fc \<in> set [15, 16] then ''Payload too short for write multiple response''
      else ''Payload too short for device identification'')"

text \<open>
  The number of payload bytes a function family requires, as the specification lays the
  payloads out: a read (codes 1 to 4) is the \<open>byte_count\<close> byte followed by
  \<open>byte_count\<close> data bytes, a write (codes 5, 6, 15, 16) is two 2-byte fields, a device
  identification (code 43) has six header bytes (an object that overruns the payload ends
  the decoding and is not an error of the frame); any other code requires nothing.
\<close>

definition family_requires :: "nat \<Rightarrow> bytes \<Rightarrow> nat" where
  "family_requires fc pl =
     (if fc \<in> set [1, 2, 3, 4] then (case pl of [] \<Rightarrow> 1 | b # rest \<Rightarrow> 1 + unat b)
      else if fc \<in> set [5, 6, 15, 16] then 4
      else if fc = 43 then 6
      else 0)"

text \<open>
  \<open>payload_byte_length\<close>, the number of payload bytes consumed for the function family
  of a decoded payload: the \<open>byte_count\<close> byte and one data byte for every 8 bits
  (codes 1 and 2) or two data bytes for every register (codes 3 and 4); the four bytes
  of the two fields of a write; the six header bytes of a device identification and, for
  every decoded object, its id byte, its length byte and its value bytes. For an unknown
  code and for an error result it is the whole payload slice, the raw remainder.
\<close>

definition payload_byte_length :: "nat \<Rightarrow> bytes \<Rightarrow> parsed_data \<Rightarrow> nat" where
  "payload_byte_length fc pl parsed =
     (case parsed of
        Error msg \<Rightarrow> length pl
      | ReadValues byte_count vals \<Rightarrow>
          (if fc \<in> set [1, 2] then 1 + length vals div 8 else 1 + 2 * length vals)
      | WriteSingle address v \<Rightarrow> 4
      | WriteMultiple address quantity \<Rightarrow> 4
      | DeviceIdentification mei rd cl mf nx objects \<Rightarrow>
          6 + sum_list (map (\<lambda>ob. 2 + length (object_value ob)) objects)
      | Raw h \<Rightarrow> length pl
      | Caught h \<Rightarrow> length pl)"

text \<open>
  The objects of a device identification as the specification words them: at most
  \<open>n\<close> entries of an id byte, a length byte and that many value bytes, taken from the
  front of the bytes that follow the six header bytes; the list ends at the first entry
  that the remaining bytes do not hold in full. The definition uses no index and no
  offset, so nothing in it can reach past the end of the bytes. It is the reference the
  source's loop \<open>read_objects\<close> is compared with.
\<close>

fun spec_objects :: "nat \<Rightarrow> bytes \<Rightarrow> device_object list" where
  "spec_objects 0 rest = []"
| "spec_objects (Suc n) (i # l # rest) =
     (if unat l \<le> length rest
      then \<lparr>object_id = unat i, object_value = decode_ascii (take (unat l) rest)\<rparr>
             # spec_objects n (drop (unat l) rest)
      else [])"
| "spec_objects (Suc n) rest = []"

section \<open>Facts about the header, the accepted frame and the statistics loop\<close>

lemma parse_header_long:
  assumes "8 \<le> length packet"
  shows "parse_header packet =
           Some (push_bit 8 (unat (packet ! 0)) OR unat (packet ! 1),
                 push_bit 8 (unat (packet ! 2)) OR unat (packet ! 3),
                 push_bit 8 (unat (packet ! 4)) OR unat (packet ! 5),
                 unat (packet ! 6), unat (packet ! 7))"
  using assms by (auto simp: parse_header_def getitem_def)

lemma parse_packet_accepted:
  assumes "8 \<le> length packet" and "parse_header packet = Some (tid, 0, len, uid, fc)"
  shows "parse_packet s packet =
           (s\<lparr>transaction_count := transaction_count s + 1,
              packets := packets s @
                [\<lparr>transaction_id = tid, protocol_id = 0, length_field = len, unit_id = uid,
                  function_code = fc,
                  function_name = dict_get FUNCTION_CODES fc (''Unknown ('' @ str_nat fc @ '')''),
                  payload = parse_function fc (payload_bytes packet len),
                  raw_data = hex packet\<rparr>]\<rparr>,
            Inr \<lparr>transaction_id = tid, protocol_id = 0, length_field = len, unit_id = uid,
                  function_code = fc,
                  function_name = dict_get FUNCTION_CODES fc (''Unknown ('' @ str_nat fc @ '')''),
                  payload = parse_function fc (payload_bytes packet len),
                  raw_data = hex packet\<rparr>)"
proof -
  from assms(1) have "\<not> (packet = [] \<or> length packet < 8)" by auto
  then show ?thesis
    using assms(2) by (simp add: parse_packet_def Let_def)
qed

lemma length_payload_bytes:
  "8 \<le> length packet \<Longrightarrow>
   length (payload_bytes packet len) =
     (if 8 + len - 2 \<le> length packet then len - 2 else length packet - 8)"
  by (auto simp: payload_bytes_def slice_def)

lemma count_packets_snoc: "count_packets (ps @ [p]) = count_packet p (count_packets ps)"
  by (simp add: count_packets_def)

lemma dict_get_set_same: "dict_get (dict_set d k v) k dflt = v"
  by (induction d k v rule: dict_set.induct) (simp_all add: dict_get_def)

lemma count_packet_function_counts:
  "dict_get (function_counts (count_packet p c)) (function_code p) 0 =
     dict_get (function_counts c) (function_code p) 0 + 1"
  by (simp add: count_packet_def Let_def dict_get_set_same)

lemma function_counts_count_packet:
  "function_counts (count_packet p c) =
     dict_set (function_counts c) (function_code p)
       (dict_get (function_counts c) (function_code p) 0 + 1)"
  by (simp add: count_packet_def Let_def)

lemma count_packet_unit_ids: "unit_ids (count_packet p c) = insert (unit_id p) (unit_ids c)"
  by (simp add: count_packet_def Let_def)

lemma count_packet_read_operations:
  "read_operations (count_packet p c) =
     read_operations c + (if function_code p \<in> set [1, 2, 3, 4] then 1 else 0)"
  by (simp add: count_packet_def Let_def)

lemma count_packet_write_operations:
  "write_operations (count_packet p c) =
     write_operations c + (if function_code p \<in> set [5, 6, 15, 16] then 1 else 0)"
  by (auto simp add: count_packet_def Let_def)

lemma sum_dict_set_incr:
  "sum_list (map snd (dict_set d k (dict_get d k 0 + 1))) = sum_list (map snd d) + (1::nat)"
  by (induction d) (auto simp: dict_get_def)

lemma count_packet_sum:
  "sum_list (map snd (function_counts (count_packet p c))) =
     sum_list (map snd (function_counts c)) + 1"
  by (simp only: function_counts_count_packet sum_dict_set_incr)

lemma count_packets_sum: "sum_list (map snd (function_counts (count_packets ps))) = length ps"
proof (induction ps rule: rev_induct)
  case Nil
  show ?case by (simp add: count_packets_def)
next
  case (snoc p ps)
  then show ?case by (simp add: count_packets_snoc count_packet_sum)
qed

lemma count_packets_operations:
  "read_operations (count_packets ps) + write_operations (count_packets ps) \<le> length ps"
proof (induction ps rule: rev_induct)
  case Nil
  show ?case by (simp add: count_packets_def)
next
  case (snoc p ps)
  then show ?case
    by (simp add: count_packets_snoc count_packet_read_operations count_packet_write_operations)
qed

lemma parse_packet_keeps_count:
  assumes "transaction_count s = length (packets s)"
  shows "transaction_count (fst (parse_packet s packet)) =
           length (packets (fst (parse_packet s packet)))"
  using assms
  by (simp add: parse_packet_def Let_def split: option.split prod.split)

lemma parse_all_keeps_count:
  "transaction_count s = length (packets s) \<Longrightarrow>
   transaction_count (parse_all s frames) = length (packets (parse_all s frames))"
proof (induction frames arbitrary: s)
  case Nil
  then show ?case by (simp add: parse_all_def)
next
  case (Cons f frames)
  from Cons.prems have "transaction_count (fst (parse_packet s f)) =
           length (packets (fst (parse_packet s f)))"
    by (rule parse_packet_keeps_count)
  from Cons.IH [OF this] show ?case
    by (simp add: parse_all_def)
qed

lemma parse_packet_result_any_state: "snd (parse_packet s packet) = snd (parse_packet s0 packet)"
  by (simp add: parse_packet_def Let_def split: option.split prod.split)

section \<open>Facts about the loops of the payload decoder\<close>

lemma for_each_total:
  "(\<And>x s. x \<in> set xs \<Longrightarrow> body x s = Some (f x s)) \<Longrightarrow> for_each xs body s = Some (fold f xs s)"
  by (induction xs arbitrary: s) simp_all

lemma fold_append_each: "fold (\<lambda>x acc. acc @ g x) xs acc = acc @ concat (map g xs)"
  by (induction xs arbitrary: acc) simp_all

lemma lsb_of_drop_bit: "drop_bit n (unat (w :: byte)) AND 1 = (if bit w n then 1 else 0)"
proof -
  have "bit (unat w) n = bit w n"
    by (simp add: bit_unsigned_iff)
  then have "odd (drop_bit n (unat w)) = bit w n"
    by (simp add: bit_iff_odd_drop_bit)
  then show ?thesis
    by (simp add: and_one_eq mod_2_eq_odd)
qed

lemma lsb_of_drop_bit_mod: "drop_bit n (unat (w :: byte)) mod 2 = (if bit w n then 1 else 0)"
  using lsb_of_drop_bit [of n w] by (simp only: and_one_eq)

lemma read_bits_byte:
  assumes "1 \<le> i" and "i < 1 + byte_count" and "i < length pl"
  shows "for_each [0..<8]
          (\<lambda>k vals.
             if (i - 1) * 8 + k < byte_count * 8
             then do { b \<leftarrow> getitem pl i; Some (vals @ [drop_bit k b AND 1]) }
             else Some vals) vals
         = Some (vals @ map (\<lambda>k. if bit (pl ! i) k then 1 else 0) [0..<8])"
proof -
  have body: "(if (i - 1) * 8 + b < byte_count * 8
             then do { x \<leftarrow> getitem pl i; Some (vs @ [drop_bit b x AND 1]) }
             else Some vs) = Some (vs @ [if bit (pl ! i) b then 1 else 0])"
    if "b \<in> set [0..<8]" for b vs
  proof -
    from that assms have "(i - 1) * 8 + b < byte_count * 8" by auto
    then show ?thesis
      using assms(3) by (simp add: getitem_def lsb_of_drop_bit_mod)
  qed
  show ?thesis
    by (subst for_each_total [where f = "\<lambda>b vs. vs @ [if bit (pl ! i) b then 1 else 0]"])
       (simp_all only: body fold_append_each, simp)
qed

lemma read_bits_eq:
  "read_bits pl byte_count =
     Some (concat (map (\<lambda>i. map (\<lambda>b. if bit (pl ! i) b then 1 else 0) [0..<8])
                       [1..<min (1 + byte_count) (length pl)]))"
proof -
  have "for_each [1..<min (1 + byte_count) (length pl)]
       (\<lambda>i. for_each [0..<8]
          (\<lambda>k vals.
             if (i - 1) * 8 + k < byte_count * 8
             then do { b \<leftarrow> getitem pl i; Some (vals @ [drop_bit k b AND 1]) }
             else Some vals))
       [] = Some (fold (\<lambda>i vs. vs @ map (\<lambda>b. if bit (pl ! i) b then 1 else 0) [0..<8])
                    [1..<min (1 + byte_count) (length pl)] [])"
  proof (rule for_each_total)
    fix i vs
    assume "i \<in> set [1..<min (1 + byte_count) (length pl)]"
    then have "1 \<le> i" and "i < 1 + byte_count" and "i < length pl"
      by simp_all
    then show "for_each [0..<8]
          (\<lambda>k vals.
             if (i - 1) * 8 + k < byte_count * 8
             then do { b \<leftarrow> getitem pl i; Some (vals @ [drop_bit k b AND 1]) }
             else Some vals) vs
         = Some (vs @ map (\<lambda>b. if bit (pl ! i) b then 1 else 0) [0..<8])"
      by (rule read_bits_byte)
  qed
  then show ?thesis
    by (simp add: read_bits_def fold_append_each)
qed

lemma concat_bytes_index:
  "concat (map (\<lambda>i. map (g i) [0..<8]) [1..<Suc n]) =
     map (\<lambda>k. g (1 + k div 8) (k mod 8)) [0..<8 * n]"
proof (induction n)
  case 0
  show ?case by simp
next
  case (Suc n)
  have "[0..<8 * Suc n] = [0..<8 * n + 8]"
    by (simp add: add.commute)
  also have "\<dots> = [0..<8 * n] @ [8 * n..<8 * n + 8]"
    by (rule upt_add_eq_append) simp
  also have "[8 * n..<8 * n + 8] = map (\<lambda>j. j + 8 * n) [0..<8]"
    by (simp only: map_add_upt add.commute)
  finally have split: "[0..<8 * Suc n] = [0..<8 * n] @ map (\<lambda>j. j + 8 * n) [0..<8]" .
  have "map (\<lambda>k. g (1 + k div 8) (k mod 8)) (map (\<lambda>j. j + 8 * n) [0..<8]) = map (g (Suc n)) [0..<8]"
    unfolding map_map by (rule map_cong [OF refl]) simp
  with Suc show ?case
    unfolding split by simp
qed

lemma read_registers_total: "\<exists>vals. read_registers pl byte_count = Some vals"
proof -
  have "for_each (range_step 1 (min (1 + byte_count) (length pl)) 2)
       (\<lambda>i vals.
          if i + 1 < length pl
          then do { hi \<leftarrow> getitem pl i; lo \<leftarrow> getitem pl (i + 1);
                    Some (vals @ [push_bit 8 hi OR lo]) }
          else Some vals)
       [] =
     Some (fold (\<lambda>i vals. if i + 1 < length pl
                            then vals @ [push_bit 8 (unat (pl ! i)) OR unat (pl ! (i + 1))]
                            else vals)
             (range_step 1 (min (1 + byte_count) (length pl)) 2) [])"
    by (rule for_each_total) (simp add: getitem_def)
  then show ?thesis
    by (simp add: read_registers_def)
qed

lemma spec_objects_short: "length rest < 2 \<Longrightarrow> spec_objects n rest = []"
  by (induction n rest rule: spec_objects.induct) simp_all

lemma read_objects_spec:
  "read_objects n pl offset objects = Some (objects @ spec_objects n (drop offset pl))"
proof (induction n arbitrary: offset objects)
  case 0
  show ?case by simp
next
  case (Suc n)
  show ?case
  proof (cases "length pl \<le> offset + 1")
    case True
    then have "length (drop offset pl) < 2" by simp
    then have "spec_objects (Suc n) (drop offset pl) = []"
      by (rule spec_objects_short)
    with True show ?thesis by simp
  next
    case False
    then have o1: "offset < length pl" and o2: "Suc offset < length pl"
      by simp_all
    have split: "drop offset pl = pl ! offset # pl ! Suc offset # drop (offset + 2) pl"
      using o1 o2 by (simp add: Cons_nth_drop_Suc)
    have g1: "getitem pl offset = Some (unat (pl ! offset))"
      using o1 by (simp add: getitem_def)
    have g2: "getitem pl (offset + 1) = Some (unat (pl ! Suc offset))"
      using o2 by (simp add: getitem_def)
    show ?thesis
    proof (cases "length pl < offset + 2 + unat (pl ! Suc offset)")
      case True
      with o2 have "\<not> unat (pl ! Suc offset) \<le> length (drop (offset + 2) pl)"
        by simp
      then have "spec_objects (Suc n) (drop offset pl) = []"
        unfolding split by simp
      with False True g1 g2 show ?thesis
        by (simp add: Let_def)
    next
      case fits: False
      with o2 have le: "unat (pl ! Suc offset) \<le> length (drop (offset + 2) pl)"
        by simp
      have spec: "spec_objects (Suc n) (drop offset pl) =
              \<lparr>object_id = unat (pl ! offset),
                object_value = decode_ascii (take (unat (pl ! Suc offset)) (drop (offset + 2) pl))\<rparr>
              # spec_objects n (drop (offset + 2 + unat (pl ! Suc offset)) pl)"
        unfolding split using le by (simp add: add.commute)
      have "read_objects (Suc n) pl offset objects =
              read_objects n pl (offset + 2 + unat (pl ! Suc offset))
                (objects @ [\<lparr>object_id = unat (pl ! offset),
                   object_value = decode_ascii (slice pl (offset + 2)
                       (offset + 2 + unat (pl ! Suc offset)))\<rparr>])"
        using False fits g1 g2 by (simp add: Let_def)
      also have "\<dots> = Some ((objects @ [\<lparr>object_id = unat (pl ! offset),
                   object_value = decode_ascii (slice pl (offset + 2)
                       (offset + 2 + unat (pl ! Suc offset)))\<rparr>])
                 @ spec_objects n (drop (offset + 2 + unat (pl ! Suc offset)) pl))"
        by (rule Suc.IH)
      finally show ?thesis
        by (simp add: spec slice_def)
    qed
  qed
qed

lemma spec_objects_fit:
  "sum_list (map (\<lambda>ob. 2 + length (object_value ob)) (spec_objects n rest)) \<le> length rest"
proof (induction n rest rule: spec_objects.induct)
  case (2 n i l rest)
  then show ?case
    by (auto simp: decode_ascii_def)
qed simp_all

text \<open>
  The \<^verbatim>\<open>try\<close> block of \<^verbatim>\<open>_parse_function\<close> raises on no input: every index
  it reads is guarded, so its \<^verbatim>\<open>except\<close> clause never runs.
\<close>

lemma parse_function_try_total: "\<exists>parsed. parse_function_try fc pl = Some parsed"
proof -
  consider (reads) "fc \<in> set [1, 2, 3, 4]"
    | (single) "fc \<notin> set [1, 2, 3, 4]" "fc \<in> set [5, 6]"
    | (multiple) "fc \<notin> set [1, 2, 3, 4]" "fc \<notin> set [5, 6]" "fc \<in> set [15, 16]"
    | (device) "fc \<notin> set [1, 2, 3, 4]" "fc \<notin> set [5, 6]" "fc \<notin> set [15, 16]" "fc = 43"
    | (unknown) "fc \<notin> set [1, 2, 3, 4]" "fc \<notin> set [5, 6]" "fc \<notin> set [15, 16]" "fc \<noteq> 43"
    by blast
  then show ?thesis
  proof cases
    case reads
    show ?thesis
    proof (cases "length pl < 1")
      case True
      with reads show ?thesis
        by (simp only: parse_function_try_def if_True) blast
    next
      case False
      then have first: "getitem pl 0 = Some (unat (pl ! 0))"
        by (auto simp: getitem_def)
      obtain regs where regs: "read_registers pl (unat (pl ! 0)) = Some regs"
        using read_registers_total by blast
      have "\<exists>vals. (if fc \<in> set [1, 2] then read_bits pl (unat (pl ! 0))
                   else if fc \<in> set [3, 4] then read_registers pl (unat (pl ! 0))
                   else Some []) = Some vals"
        by (simp only: read_bits_eq regs split: if_split) blast
      then obtain vals where "(if fc \<in> set [1, 2] then read_bits pl (unat (pl ! 0))
                   else if fc \<in> set [3, 4] then read_registers pl (unat (pl ! 0))
                   else Some []) = Some vals" ..
      with reads False first
      have "parse_function_try fc pl = Some (ReadValues (unat (pl ! 0)) vals)"
        by (simp only: parse_function_try_def if_True if_False bind.bind_lunit)
      then show ?thesis by blast
    qed
  next
    case single
    show ?thesis
    proof (cases "length pl < 4")
      case True
      with single show ?thesis
        by (simp only: parse_function_try_def if_True if_False) blast
    next
      case False
      then have "getitem pl 0 = Some (unat (pl ! 0))" "getitem pl 1 = Some (unat (pl ! 1))"
        "getitem pl 2 = Some (unat (pl ! 2))" "getitem pl 3 = Some (unat (pl ! 3))"
        by (auto simp: getitem_def)
      with single False show ?thesis
        by (simp only: parse_function_try_def if_True if_False bind.bind_lunit Let_def) blast
    qed
  next
    case multiple
    show ?thesis
    proof (cases "length pl < 4")
      case True
      with multiple show ?thesis
        by (simp only: parse_function_try_def if_True if_False) blast
    next
      case False
      then have "getitem pl 0 = Some (unat (pl ! 0))" "getitem pl 1 = Some (unat (pl ! 1))"
        "getitem pl 2 = Some (unat (pl ! 2))" "getitem pl 3 = Some (unat (pl ! 3))"
        by (auto simp: getitem_def)
      with multiple False show ?thesis
        by (simp only: parse_function_try_def if_True if_False bind.bind_lunit) blast
    qed
  next
    case device
    show ?thesis
    proof (cases "length pl < 6")
      case True
      with device show ?thesis
        by (simp only: parse_function_try_def if_True if_False simp_thms) blast
    next
      case False
      then have "6 \<le> length pl" by simp
      then have g: "getitem pl i = Some (unat (pl ! i))" if "i < 6" for i
        using that by (auto simp: getitem_def)
      from False device show ?thesis
        by (simp add: parse_function_try_def g read_objects_spec)
    qed
  next
    case unknown
    then show ?thesis
      by (simp only: parse_function_try_def if_True if_False simp_thms) blast
  qed
qed

lemma parse_function_from_try: "parse_function_try fc pl = Some (parse_function fc pl)"
  using parse_function_try_total [of fc pl] by (auto simp: parse_function_def)

text \<open>The exact result of the register loop, of the length guards and of a read.\<close>

lemma range_step_eq: "range_step s m 2 = map (\<lambda>k. s + 2 * k) [0..<(m - s + 1) div 2]"
proof (induction s m "2::nat" rule: range_step.induct)
  case (1 start stop)
  show ?case
  proof (cases "stop \<le> start")
    case True
    then show ?thesis
      by (simp add: range_step.simps)
  next
    case False
    then have n: "(stop - start + 1) div 2 = Suc ((stop - (start + 2) + 1) div 2)"
      by arith
    have "range_step start stop 2 = start # range_step (start + 2) stop 2"
      using False by (simp add: range_step.simps)
    also have "\<dots> = start # map (\<lambda>k. start + 2 + 2 * k) [0..<(stop - (start + 2) + 1) div 2]"
      using False 1 by simp
    also have "\<dots> = map (\<lambda>k. start + 2 * k) [0..<Suc ((stop - (start + 2) + 1) div 2)]"
      by (simp add: upt_conv_Cons map_Suc_upt [symmetric] del: upt_Suc)
    finally show ?thesis
      by (simp only: n)
  qed
qed

lemma filter_less_upt: "filter (\<lambda>k. k < j) [0..<c] = [0..<min c j]"
  by (induction c) auto

lemma pairs_in_range:
  "filter (\<lambda>i. i + 1 < n) (map (\<lambda>k. s + 2 * k) [0..<c]) =
     map (\<lambda>k. s + 2 * k) [0..<min c ((n - s) div 2)]"
proof -
  have "(s + 2 * k + 1 < n) = (k < (n - s) div 2)" for k
    by arith
  then show ?thesis
    by (simp add: filter_map o_def filter_less_upt)
qed

lemma fold_append_if:
  "fold (\<lambda>x acc. if P x then acc @ [g x] else acc) xs acc = acc @ map g (filter P xs)"
  by (induction xs arbitrary: acc) simp_all

lemma read_registers_eq:
  "read_registers pl byte_count =
     Some (map (\<lambda>k. push_bit 8 (unat (pl ! (1 + 2 * k))) OR unat (pl ! (2 + 2 * k)))
             [0..<min (min (1 + byte_count) (length pl) div 2) ((length pl - 1) div 2)])"
proof -
  have "for_each (range_step 1 (min (1 + byte_count) (length pl)) 2)
       (\<lambda>i vals.
          if i + 1 < length pl
          then do { hi \<leftarrow> getitem pl i; lo \<leftarrow> getitem pl (i + 1);
                    Some (vals @ [push_bit 8 hi OR lo]) }
          else Some vals)
       [] =
     Some (fold (\<lambda>i vals. if i + 1 < length pl
                            then vals @ [push_bit 8 (unat (pl ! i)) OR unat (pl ! (i + 1))]
                            else vals)
             (range_step 1 (min (1 + byte_count) (length pl)) 2) [])"
    by (rule for_each_total) (simp add: getitem_def)
  also have "fold (\<lambda>i vals. if i + 1 < length pl
                            then vals @ [push_bit 8 (unat (pl ! i)) OR unat (pl ! (i + 1))]
                            else vals)
             (range_step 1 (min (1 + byte_count) (length pl)) 2) [] =
        map (\<lambda>i. push_bit 8 (unat (pl ! i)) OR unat (pl ! (i + 1)))
          (filter (\<lambda>i. i + 1 < length pl)
             (range_step 1 (min (1 + byte_count) (length pl)) 2))"
    by (simp only: fold_append_if append_Nil)
  also have "filter (\<lambda>i. i + 1 < length pl)
             (range_step 1 (min (1 + byte_count) (length pl)) 2) =
        map (\<lambda>k. 1 + 2 * k)
          [0..<min ((min (1 + byte_count) (length pl) - 1 + 1) div 2) ((length pl - 1) div 2)]"
    by (simp only: range_step_eq pairs_in_range)
  also have "(min (1 + byte_count) (length pl) - 1 + 1) div 2 =
               min (1 + byte_count) (length pl) div 2"
    by arith
  finally show ?thesis
    by (simp add: read_registers_def o_def)
qed

lemma short_payload_message:
  assumes "length pl < min_payload fc"
  shows "parse_function_try fc pl = Some (Error (short_message fc))"
proof -
  consider (reads) "fc \<in> set [1, 2, 3, 4]"
    | (single) "fc \<notin> set [1, 2, 3, 4]" "fc \<in> set [5, 6]"
    | (multiple) "fc \<notin> set [1, 2, 3, 4]" "fc \<notin> set [5, 6]" "fc \<in> set [15, 16]"
    | (device) "fc \<notin> set [1, 2, 3, 4]" "fc \<notin> set [5, 6]" "fc \<notin> set [15, 16]" "fc = 43"
    | (unknown) "fc \<notin> set [1, 2, 3, 4]" "fc \<notin> set [5, 6]" "fc \<notin> set [15, 16]" "fc \<noteq> 43"
    by blast
  then show ?thesis
  proof cases
    case reads
    with assms have "length pl < 1"
      by (simp only: min_payload_def if_True)
    with reads show ?thesis
      by (simp only: parse_function_try_def short_message_def if_True)
  next
    case single
    with assms have "length pl < 4"
      by (simp only: min_payload_def if_True if_False)
    with single show ?thesis
      by (simp only: parse_function_try_def short_message_def if_True if_False)
  next
    case multiple
    with assms have "length pl < 4"
      by (simp only: min_payload_def if_True if_False)
    with multiple show ?thesis
      by (simp only: parse_function_try_def short_message_def if_True if_False)
  next
    case device
    with assms have "length pl < 6"
      by (simp only: min_payload_def if_True if_False simp_thms)
    with device show ?thesis
      by (simp only: parse_function_try_def short_message_def if_True if_False simp_thms)
  next
    case unknown
    with assms have "length pl < 0"
      by (simp only: min_payload_def if_True if_False simp_thms)
    then show ?thesis by simp
  qed
qed

lemma parse_function_try_read:
  assumes "fc \<in> set [1, 2, 3, 4]" and "pl \<noteq> []"
  shows "parse_function_try fc pl =
           Some (ReadValues (unat (hd pl))
             (if fc \<in> set [1, 2]
              then map (\<lambda>k. if bit (pl ! (1 + k div 8)) (k mod 8) then 1 else 0)
                     [0..<8 * min (unat (hd pl)) (length pl - 1)]
              else map (\<lambda>k. push_bit 8 (unat (pl ! (1 + 2 * k))) OR unat (pl ! (2 + 2 * k)))
                     [0..<min (min (1 + unat (hd pl)) (length pl) div 2)
                              ((length pl - 1) div 2)]))"
proof -
  from assms(2) have first: "getitem pl 0 = Some (unat (hd pl))"
    by (cases pl) (simp_all add: getitem_def)
  from assms(2) have long: "\<not> length pl < 1"
    by (cases pl) simp_all
  have range: "[1..<min (1 + unat (hd pl)) (length pl)] =
                 [1..<Suc (min (unat (hd pl)) (length pl - 1))]"
    using assms(2) by (cases pl) simp_all
  have bits: "read_bits pl (unat (hd pl)) =
          Some (map (\<lambda>k. if bit (pl ! (1 + k div 8)) (k mod 8) then 1 else 0)
                  [0..<8 * min (unat (hd pl)) (length pl - 1)])"
    unfolding read_bits_eq range by (simp only: concat_bytes_index)
  show ?thesis
  proof (cases "fc \<in> set [1, 2]")
    case True
    with assms(1) long show ?thesis
      by (simp only: parse_function_try_def if_True if_False first bind.bind_lunit bits)
  next
    case False
    with assms(1) have regs: "fc \<in> set [3, 4]"
      by auto
    from assms(1) long False regs show ?thesis
      by (simp only: parse_function_try_def if_True if_False first bind.bind_lunit
          read_registers_eq)
  qed
qed

text \<open>No function family consumes more bytes than the payload slice holds.\<close>

lemma payload_byte_length_le:
  "payload_byte_length fc pl (parse_function fc pl) \<le> length pl"
proof -
  consider (reads) "fc \<in> set [1, 2, 3, 4]"
    | (single) "fc \<notin> set [1, 2, 3, 4]" "fc \<in> set [5, 6]"
    | (multiple) "fc \<notin> set [1, 2, 3, 4]" "fc \<notin> set [5, 6]" "fc \<in> set [15, 16]"
    | (device) "fc \<notin> set [1, 2, 3, 4]" "fc \<notin> set [5, 6]" "fc \<notin> set [15, 16]" "fc = 43"
    | (unknown) "fc \<notin> set [1, 2, 3, 4]" "fc \<notin> set [5, 6]" "fc \<notin> set [15, 16]" "fc \<noteq> 43"
    by blast
  then show ?thesis
  proof cases
    case reads
    show ?thesis
    proof (cases "pl = []")
      case True
      then have "length pl < min_payload fc"
        using reads by (simp only: min_payload_def if_True) simp
      from short_payload_message [OF this] show ?thesis
        by (simp add: parse_function_def payload_byte_length_def)
    next
      case False
      then have pos: "1 \<le> length pl"
        by (cases pl) simp_all
      have regs: "1 + 2 * min a ((length pl - 1) div 2) \<le> length pl" for a
        using pos by arith
      have bits: "1 + (8 * min b (length pl - 1)) div 8 \<le> length pl" for b
        using pos by simp
      from parse_function_try_read [OF reads False] show ?thesis
        using regs bits by (simp add: parse_function_def payload_byte_length_def)
    qed
  next
    case single
    show ?thesis
    proof (cases "length pl < 4")
      case True
      then have "length pl < min_payload fc"
        using single by (simp only: min_payload_def if_True if_False)
      from short_payload_message [OF this] show ?thesis
        by (simp add: parse_function_def payload_byte_length_def)
    next
      case False
      then have "getitem pl 0 = Some (unat (pl ! 0))" "getitem pl 1 = Some (unat (pl ! 1))"
        "getitem pl 2 = Some (unat (pl ! 2))" "getitem pl 3 = Some (unat (pl ! 3))"
        by (auto simp: getitem_def)
      with single False have "\<exists>a v. parse_function_try fc pl = Some (WriteSingle a v)"
        by (simp only: parse_function_try_def if_True if_False bind.bind_lunit Let_def) blast
      with False show ?thesis
        by (auto simp: parse_function_def payload_byte_length_def)
    qed
  next
    case multiple
    show ?thesis
    proof (cases "length pl < 4")
      case True
      then have "length pl < min_payload fc"
        using multiple by (simp only: min_payload_def if_True if_False)
      from short_payload_message [OF this] show ?thesis
        by (simp add: parse_function_def payload_byte_length_def)
    next
      case False
      then have "getitem pl 0 = Some (unat (pl ! 0))" "getitem pl 1 = Some (unat (pl ! 1))"
        "getitem pl 2 = Some (unat (pl ! 2))" "getitem pl 3 = Some (unat (pl ! 3))"
        by (auto simp: getitem_def)
      with multiple False have "\<exists>a q. parse_function_try fc pl = Some (WriteMultiple a q)"
        by (simp only: parse_function_try_def if_True if_False bind.bind_lunit) blast
      with False show ?thesis
        by (auto simp: parse_function_def payload_byte_length_def)
    qed
  next
    case device
    show ?thesis
    proof (cases "length pl < 6")
      case True
      then have "length pl < min_payload fc"
        using device by (simp only: min_payload_def if_True if_False simp_thms)
      from short_payload_message [OF this] show ?thesis
        by (simp add: parse_function_def payload_byte_length_def)
    next
      case False
      then have g: "getitem pl i = Some (unat (pl ! i))" if "i < 6" for i
        using that by (auto simp: getitem_def)
      from False device have "parse_function_try fc pl =
           Some (DeviceIdentification (unat (pl ! 0)) (unat (pl ! 1)) (unat (pl ! 2))
                   (unat (pl ! 3)) (unat (pl ! 4))
                   (spec_objects (unat (pl ! 5)) (drop 6 pl)))"
        by (simp add: parse_function_try_def g read_objects_spec)
      with False spec_objects_fit [of "unat (pl ! 5)" "drop 6 pl"] show ?thesis
        by (simp add: parse_function_def payload_byte_length_def)
    qed
  next
    case unknown
    then have "parse_function_try fc pl = Some (Raw (hex pl))"
      by (simp only: parse_function_try_def if_True if_False simp_thms)
    then show ?thesis
      by (simp add: parse_function_def payload_byte_length_def)
  qed
qed

text \<open>
  The results of the frame loop do not depend on the state the parser is in: each frame
  adds its own parsed packet, or nothing when it is rejected.
\<close>

lemma frame_step_results:
  "snd (frame_step f (s, acc)) =
     acc @ (case snd (parse_packet s f) of Inl r \<Rightarrow> [] | Inr p \<Rightarrow> [p])"
  by (cases "parse_packet s f") (simp add: frame_step_def split: sum.split)

lemma fold_frame_step_results:
  "snd (fold frame_step frames (s, acc)) = acc @ snd (fold frame_step frames (s0, []))"
proof (induction frames arbitrary: s s0 acc)
  case Nil
  show ?case by simp
next
  case (Cons f frames)
  define res where "res = (case snd (parse_packet s f) of Inl r \<Rightarrow> [] | Inr p \<Rightarrow> [p])"
  have same: "res = (case snd (parse_packet s0 f) of Inl r \<Rightarrow> [] | Inr p \<Rightarrow> [p])"
    unfolding res_def by (simp only: parse_packet_result_any_state [of s f s0])
  obtain s1 where a: "frame_step f (s, acc) = (s1, acc @ res)"
    using frame_step_results [of f s acc] unfolding res_def
    by (cases "frame_step f (s, acc)") simp
  obtain s2 where b: "frame_step f (s0, []) = (s2, res)"
    using frame_step_results [of f s0 "[]"] unfolding same
    by (cases "frame_step f (s0, [])") simp
  have "snd (fold frame_step (f # frames) (s, acc)) = snd (fold frame_step frames (s1, acc @ res))"
    by (simp only: fold_simps a)
  also have "\<dots> = (acc @ res) @ snd (fold frame_step frames (s0, []))"
    by (rule Cons.IH)
  finally have left: "snd (fold frame_step (f # frames) (s, acc)) =
                        acc @ res @ snd (fold frame_step frames (s0, []))"
    by (simp only: append_assoc)
  have "snd (fold frame_step (f # frames) (s0, [])) = snd (fold frame_step frames (s2, res))"
    by (simp only: fold_simps b)
  also have "\<dots> = res @ snd (fold frame_step frames (s0, []))"
    by (rule Cons.IH)
  finally have right: "snd (fold frame_step (f # frames) (s0, [])) =
                         res @ snd (fold frame_step frames (s0, []))" .
  show ?case
    by (simp only: left right)
qed

lemma parse_frames_accepted:
  assumes "parse_packet s f = (s', Inr p)"
  shows "snd (parse_frames s (f # rest)) = p # snd (parse_frames s rest)"
proof -
  from assms have "frame_step f (s, []) = (s', [p])"
    by (simp add: frame_step_def)
  then have "snd (parse_frames s (f # rest)) = snd (fold frame_step rest (s', [p]))"
    by (simp only: parse_frames_def fold_simps)
  also have "\<dots> = [p] @ snd (fold frame_step rest (s, []))"
    by (rule fold_frame_step_results)
  finally show ?thesis
    by (simp only: parse_frames_def append_Cons append_Nil)
qed

section \<open>Claim C1: frames whose payload decoding returns an error\<close>

text \<open>
  Claim C1 says that a frame of at least 8 bytes with protocol id 0 whose payload decoding
  gave an error result adds nothing to \<open>transaction_count\<close>, \<open>function_codes\<close>,
  \<open>unit_ids\<close>, \<open>read_operations\<close> or \<open>write_operations\<close>. The parser has no such
  filter: the frame \<^verbatim>\<open>00 01 00 00 00 02 01 03\<close> (function code 3, no payload byte) is
  decoded to an error payload, stored, and counted in every one of the five fields.
\<close>

theorem error_payload_counted_counterexample:
  "(\<exists>p. parse_packet init [0, 1, 0, 0, 0, 2, 1, 3] =
          (\<lparr>transaction_count = 1, packets = [p]\<rparr>, Inr p)
        \<and> payload p = Error ''Payload too short for read response'')
   \<and> get_statistics init = [(''transaction_count'', Count 0)]
   \<and> get_statistics (fst (parse_packet init [0, 1, 0, 0, 0, 2, 1, 3])) =
       [(''transaction_count'', Count 1), (''function_codes'', Counts [(3, 1)]),
        (''unit_ids'', Ids {1}), (''read_operations'', Count 1),
        (''write_operations'', Count 0)]"
  by (simp add: parse_packet_def parse_header_def getitem_def payload_bytes_def slice_def
      parse_function_def parse_function_try_def init_def
      get_statistics_def count_packets_def count_packet_def dict_get_def Let_def)

text \<open>
  Claim C1 as amended: a frame of at least 8 bytes with protocol id 0 whose payload decoding
  returns an error result is still stored and counted. \<open>transaction_count\<close> grows by one,
  the count of its function code grows by one, its unit id joins \<open>unit_ids\<close>, and
  \<open>read_operations\<close> (codes 1 to 4) or \<open>write_operations\<close> (codes 5, 6, 15, 16) grows
  by one.
\<close>

theorem error_payload_counted:
  assumes "8 \<le> length packet"
    and "parse_header packet = Some (tid, 0, len, uid, fc)"
    and "parse_function fc (payload_bytes packet len) = Error msg"
  shows "\<exists>p c. parse_packet s packet =
               (s\<lparr>transaction_count := transaction_count s + 1,
                  packets := packets s @ [p]\<rparr>, Inr p)
           \<and> payload p = Error msg \<and> unit_id p = uid \<and> function_code p = fc
           \<and> c = count_packet p (count_packets (packets s))
           \<and> get_statistics (fst (parse_packet s packet)) =
               [(''transaction_count'', Count (transaction_count s + 1)),
                (''function_codes'', Counts (function_counts c)),
                (''unit_ids'', Ids (unit_ids c)),
                (''read_operations'', Count (read_operations c)),
                (''write_operations'', Count (write_operations c))]
           \<and> dict_get (function_counts c) fc 0 =
               dict_get (function_counts (count_packets (packets s))) fc 0 + 1
           \<and> unit_ids c = insert uid (unit_ids (count_packets (packets s)))
           \<and> read_operations c =
               read_operations (count_packets (packets s))
                 + (if fc \<in> set [1, 2, 3, 4] then 1 else 0)
           \<and> write_operations c =
               write_operations (count_packets (packets s))
                 + (if fc \<in> set [5, 6, 15, 16] then 1 else 0)"
proof -
  define p where "p = \<lparr>transaction_id = tid, protocol_id = 0, length_field = len, unit_id = uid,
                  function_code = fc,
                  function_name = dict_get FUNCTION_CODES fc (''Unknown ('' @ str_nat fc @ '')''),
                  payload = parse_function fc (payload_bytes packet len),
                  raw_data = hex packet\<rparr>"
  have sel: "payload p = Error msg" "unit_id p = uid" "function_code p = fc"
    using assms(3) by (simp_all add: p_def)
  have run: "parse_packet s packet =
               (s\<lparr>transaction_count := transaction_count s + 1,
                  packets := packets s @ [p]\<rparr>, Inr p)"
    unfolding p_def by (rule parse_packet_accepted [OF assms(1,2)])
  have stats: "get_statistics (fst (parse_packet s packet)) =
               [(''transaction_count'', Count (transaction_count s + 1)),
                (''function_codes'', Counts (function_counts (count_packet p (count_packets (packets s))))),
                (''unit_ids'', Ids (unit_ids (count_packet p (count_packets (packets s))))),
                (''read_operations'', Count (read_operations (count_packet p (count_packets (packets s))))),
                (''write_operations'', Count (write_operations (count_packet p (count_packets (packets s)))))]"
    unfolding run by (simp add: get_statistics_def count_packets_snoc Let_def)
  have fcs: "dict_get (function_counts (count_packet p (count_packets (packets s)))) fc 0 =
               dict_get (function_counts (count_packets (packets s))) fc 0 + 1"
    using count_packet_function_counts [of p] sel(3) by simp
  have uids: "unit_ids (count_packet p (count_packets (packets s))) =
                insert uid (unit_ids (count_packets (packets s)))"
    using count_packet_unit_ids [of p] sel(2) by simp
  have rd: "read_operations (count_packet p (count_packets (packets s))) =
               read_operations (count_packets (packets s))
                 + (if fc \<in> set [1, 2, 3, 4] then 1 else 0)"
    using count_packet_read_operations [of p] sel(3) by simp
  have wr: "write_operations (count_packet p (count_packets (packets s))) =
               write_operations (count_packets (packets s))
                 + (if fc \<in> set [5, 6, 15, 16] then 1 else 0)"
    using count_packet_write_operations [of p] sel(3) by simp
  show ?thesis
    using run sel stats fcs uids rd wr by blast
qed

theorem error_payload_counted_witness:
  "\<exists>p c. parse_packet init [0, 1, 0, 0, 0, 2, 1, 3] =
               (init\<lparr>transaction_count := transaction_count init + 1,
                  packets := packets init @ [p]\<rparr>, Inr p)
           \<and> payload p = Error ''Payload too short for read response''
           \<and> c = count_packet p (count_packets (packets init))
           \<and> dict_get (function_counts c) 3 0 = 1
           \<and> unit_ids c = {1} \<and> read_operations c = 1 \<and> write_operations c = 0"
proof -
  have h: "parse_header [0, 1, 0, 0, 0, 2, 1, 3] = Some (1, 0, 2, 1, 3)"
    by (simp add: parse_header_def getitem_def)
  have f: "parse_function 3 (payload_bytes [0, 1, 0, 0, 0, 2, 1, 3] 2) =
             Error ''Payload too short for read response''"
    by (simp add: parse_function_def parse_function_try_def payload_bytes_def slice_def)
  have c0: "count_packets (packets init) =
              \<lparr>function_counts = [], unit_ids = {}, write_operations = 0, read_operations = 0\<rparr>"
    by (simp add: init_def count_packets_def)
  have d0: "dict_get (function_counts (count_packets (packets init))) 3 (0::nat) = 0"
    by (simp add: c0 dict_get_def)
  have l: "8 \<le> length [0, 1, 0, 0, 0, 2, 1, 3 :: byte]"
    by simp
  from error_payload_counted [OF l h f, of init]
  obtain p c where run: "parse_packet init [0, 1, 0, 0, 0, 2, 1, 3] =
               (init\<lparr>transaction_count := transaction_count init + 1,
                  packets := packets init @ [p]\<rparr>, Inr p)"
    and pl: "payload p = Error ''Payload too short for read response''"
    and c: "c = count_packet p (count_packets (packets init))"
    and fcs: "dict_get (function_counts c) 3 0 =
               dict_get (function_counts (count_packets (packets init))) 3 0 + 1"
    and uids: "unit_ids c = insert 1 (unit_ids (count_packets (packets init)))"
    and rd: "read_operations c =
               read_operations (count_packets (packets init))
                 + (if (3::nat) \<in> set [1, 2, 3, 4] then 1 else 0)"
    and wr: "write_operations c =
               write_operations (count_packets (packets init))
                 + (if (3::nat) \<in> set [5, 6, 15, 16] then 1 else 0)"
    by blast
  have "dict_get (function_counts c) 3 0 = 1"
    using fcs d0 by simp
  moreover have "unit_ids c = {1}"
    using uids c0 by simp
  moreover have "read_operations c = 1"
    using rd c0 by simp
  moreover have "write_operations c = 0"
    using wr c0 by simp
  ultimately show ?thesis
    using run pl c by blast
qed

section \<open>Claim C2: the stored length field\<close>

text \<open>
  Claim C2 says that the stored \<open>length\<close> equals \<open>payload_byte_length + 2\<close> for
  every stored Transaction, also when the declared length exceeds the bytes present. Two
  frames show otherwise. The frame
  \<^verbatim>\<open>00 01 00 00 00 0A 01 05 00 10 FF 00 AA BB CC DD\<close> declares the length 10, all of
  its bytes are present, and the write of a single coil consumes 4 payload bytes: 10 is
  not 4 + 2. The frame \<^verbatim>\<open>00 01 00 00 00 07 01 63\<close> declares the length 7 and carries
  no payload byte: its unknown function code keeps the whole payload slice, which is
  empty, and 7 is not 0 + 2.
\<close>

theorem stored_length_counterexample:
  "(\<exists>p. parse_packet init [0, 1, 0, 0, 0, 10, 1, 5, 0, 16, 255, 0, 170, 187, 204, 221] =
          (\<lparr>transaction_count = 1, packets = [p]\<rparr>, Inr p)
        \<and> 8 + length_field p - 2 \<le>
            length [0, 1, 0, 0, 0, 10, 1, 5, 0, 16, 255, 0, 170, 187, 204, 221 :: byte]
        \<and> payload p = WriteSingle 16 1
        \<and> payload_byte_length 5
             (payload_bytes [0, 1, 0, 0, 0, 10, 1, 5, 0, 16, 255, 0, 170, 187, 204, 221] 10)
             (payload p) = 4
        \<and> length_field p = 10
        \<and> length_field p \<noteq>
            payload_byte_length 5
              (payload_bytes [0, 1, 0, 0, 0, 10, 1, 5, 0, 16, 255, 0, 170, 187, 204, 221] 10)
              (payload p) + 2)
   \<and> (\<exists>p. parse_packet init [0, 1, 0, 0, 0, 7, 1, 99] =
          (\<lparr>transaction_count = 1, packets = [p]\<rparr>, Inr p)
        \<and> payload p = Raw []
        \<and> payload_byte_length 99 (payload_bytes [0, 1, 0, 0, 0, 7, 1, 99] 7) (payload p) = 0
        \<and> length_field p = 7
        \<and> length_field p \<noteq>
            payload_byte_length 99 (payload_bytes [0, 1, 0, 0, 0, 7, 1, 99] 7) (payload p) + 2)"
  by (simp add: parse_packet_def parse_header_def getitem_def payload_bytes_def slice_def
      parse_function_def parse_function_try_def init_def payload_byte_length_def hex_def
      Let_def)

text \<open>
  Claim C2 as amended: for every Transaction appended by \<^verbatim>\<open>parse_packet\<close> the stored
  \<open>length\<close> is the frame's own length field (bytes 4 and 5, big-endian), never
  recomputed. \<open>payload_byte_length\<close> never exceeds the payload slice handed to the
  decoder, which has \<open>length - 2\<close> bytes when \<open>8 + length - 2\<close> does not exceed the
  frame size and is the rest of the frame after byte 8 otherwise. So
  \<open>payload_byte_length + 2 \<le> length\<close> whenever \<open>length\<close> is at least 2, and
  \<open>length = payload_byte_length + 2\<close> holds exactly when \<open>2 \<le> length\<close>,
  \<open>8 + length - 2\<close> does not exceed the frame size, and the decoder consumed the whole
  slice. It holds for no frame whose declared length exceeds the bytes present.
\<close>

theorem stored_length:
  assumes "8 \<le> length packet"
    and "parse_header packet = Some (tid, 0, len, uid, fc)"
  shows "\<exists>p. parse_packet s packet =
               (s\<lparr>transaction_count := transaction_count s + 1,
                  packets := packets s @ [p]\<rparr>, Inr p)
           \<and> length_field p = push_bit 8 (unat (packet ! 4)) OR unat (packet ! 5)
           \<and> payload p = parse_function fc (payload_bytes packet (length_field p))
           \<and> payload_byte_length fc (payload_bytes packet (length_field p)) (payload p)
               \<le> length (payload_bytes packet (length_field p))
           \<and> length (payload_bytes packet (length_field p)) =
               (if 8 + length_field p - 2 \<le> length packet then length_field p - 2
                else length packet - 8)
           \<and> payload_byte_length fc (payload_bytes packet (length_field p)) (payload p) + 2
               \<le> max 2 (length_field p)
           \<and> (length_field p =
                 payload_byte_length fc (payload_bytes packet (length_field p)) (payload p) + 2
                \<longleftrightarrow> 2 \<le> length_field p \<and> 8 + length_field p - 2 \<le> length packet
                    \<and> payload_byte_length fc (payload_bytes packet (length_field p)) (payload p)
                        = length (payload_bytes packet (length_field p)))"
proof -
  define p where "p = \<lparr>transaction_id = tid, protocol_id = 0, length_field = len, unit_id = uid,
                  function_code = fc,
                  function_name = dict_get FUNCTION_CODES fc (''Unknown ('' @ str_nat fc @ '')''),
                  payload = parse_function fc (payload_bytes packet len),
                  raw_data = hex packet\<rparr>"
  define used where "used = payload_byte_length fc (payload_bytes packet len)
                              (parse_function fc (payload_bytes packet len))"
  have sel: "length_field p = len" "payload p = parse_function fc (payload_bytes packet len)"
    by (simp_all add: p_def)
  have run: "parse_packet s packet =
               (s\<lparr>transaction_count := transaction_count s + 1,
                  packets := packets s @ [p]\<rparr>, Inr p)"
    unfolding p_def by (rule parse_packet_accepted [OF assms])
  from parse_header_long [OF assms(1)] assms(2)
  have len: "len = push_bit 8 (unat (packet ! 4)) OR unat (packet ! 5)"
    by simp
  have le: "used \<le> length (payload_bytes packet len)"
    unfolding used_def by (rule payload_byte_length_le)
  have n: "length (payload_bytes packet len) =
             (if 8 + len - 2 \<le> length packet then len - 2 else length packet - 8)"
    by (rule length_payload_bytes [OF assms(1)])
  have bound: "used + 2 \<le> max 2 len"
    using le assms(1) unfolding n by (auto split: if_splits)
  have iff: "len = used + 2
               \<longleftrightarrow> 2 \<le> len \<and> 8 + len - 2 \<le> length packet
                   \<and> used = length (payload_bytes packet len)"
    using le assms(1) unfolding n by (auto split: if_splits)
  have "length_field p = push_bit 8 (unat (packet ! 4)) OR unat (packet ! 5)
           \<and> payload p = parse_function fc (payload_bytes packet (length_field p))
           \<and> payload_byte_length fc (payload_bytes packet (length_field p)) (payload p)
               \<le> length (payload_bytes packet (length_field p))
           \<and> length (payload_bytes packet (length_field p)) =
               (if 8 + length_field p - 2 \<le> length packet then length_field p - 2
                else length packet - 8)
           \<and> payload_byte_length fc (payload_bytes packet (length_field p)) (payload p) + 2
               \<le> max 2 (length_field p)
           \<and> (length_field p =
                 payload_byte_length fc (payload_bytes packet (length_field p)) (payload p) + 2
                \<longleftrightarrow> 2 \<le> length_field p \<and> 8 + length_field p - 2 \<le> length packet
                    \<and> payload_byte_length fc (payload_bytes packet (length_field p)) (payload p)
                        = length (payload_bytes packet (length_field p)))"
    unfolding sel used_def [symmetric]
    using len le n bound iff by blast
  with run show ?thesis
    by blast
qed

text \<open>
  Scenario A: the length field is 7 and the read consumes the \<open>byte_count\<close> byte and
  two registers, 5 bytes.
\<close>

theorem stored_length_witness:
  "\<exists>p. snd (parse_packet init [0, 1, 0, 0, 0, 7, 1, 3, 4, 0, 1, 0, 255]) = Inr p
       \<and> length_field p = 7
       \<and> payload p = ReadValues 4 [1, 255]
       \<and> payload_byte_length 3 (payload_bytes [0, 1, 0, 0, 0, 7, 1, 3, 4, 0, 1, 0, 255] 7)
            (payload p) = 5
       \<and> length_field p =
           payload_byte_length 3 (payload_bytes [0, 1, 0, 0, 0, 7, 1, 3, 4, 0, 1, 0, 255] 7)
             (payload p) + 2"
proof -
  have l: "8 \<le> length [0, 1, 0, 0, 0, 7, 1, 3, 4, 0, 1, 0, 255 :: byte]"
    by simp
  have h: "parse_header [0, 1, 0, 0, 0, 7, 1, 3, 4, 0, 1, 0, 255] = Some (1, 0, 7, 1, 3)"
    by (simp add: parse_header_def getitem_def)
  have w: "push_bit 8 (unat ([0, 1, 0, 0, 0, 7, 1, 3, 4, 0, 1, 0, 255 :: byte] ! 4))
           OR unat ([0, 1, 0, 0, 0, 7, 1, 3, 4, 0, 1, 0, 255 :: byte] ! 5) = 7"
    by simp
  have f: "parse_function 3 (payload_bytes [0, 1, 0, 0, 0, 7, 1, 3, 4, 0, 1, 0, 255] 7) =
             ReadValues 4 [1, 255]"
    by (simp add: payload_bytes_def slice_def parse_function_def parse_function_try_def
        getitem_def read_registers_def range_step.simps)
  from stored_length [OF l h, of init]
  obtain p where run: "parse_packet init [0, 1, 0, 0, 0, 7, 1, 3, 4, 0, 1, 0, 255] =
               (init\<lparr>transaction_count := transaction_count init + 1,
                  packets := packets init @ [p]\<rparr>, Inr p)"
    and lf: "length_field p =
           push_bit 8 (unat ([0, 1, 0, 0, 0, 7, 1, 3, 4, 0, 1, 0, 255 :: byte] ! 4))
           OR unat ([0, 1, 0, 0, 0, 7, 1, 3, 4, 0, 1, 0, 255 :: byte] ! 5)"
    and pl: "payload p = parse_function 3
               (payload_bytes [0, 1, 0, 0, 0, 7, 1, 3, 4, 0, 1, 0, 255] (length_field p))"
    by blast
  from lf w have lf7: "length_field p = 7"
    by simp
  from pl lf7 f have pv: "payload p = ReadValues 4 [1, 255]"
    by simp
  have used: "payload_byte_length 3 (payload_bytes [0, 1, 0, 0, 0, 7, 1, 3, 4, 0, 1, 0, 255] 7)
            (payload p) = 5"
    unfolding pv by (simp add: payload_byte_length_def)
  from run have "snd (parse_packet init [0, 1, 0, 0, 0, 7, 1, 3, 4, 0, 1, 0, 255]) = Inr p"
    by simp
  with lf7 pv used show ?thesis
    by (intro exI [of _ p]) simp
qed

section \<open>Claim C3: frames with a protocol id other than 0\<close>

text \<open>
  Claim C3. A frame of at least 8 bytes whose protocol id (bytes 2 and 3, as
  \<open>parse_header\<close> reads them) is not 0 is rejected with \<open>InvalidProtocolId\<close>:
  \<^verbatim>\<open>parse_packet\<close> returns no parsed packet and leaves the parser as it was, so the
  packet list and \<open>transaction_count\<close> are unchanged.
\<close>

theorem invalid_protocol_id_rejected:
  assumes "8 \<le> length packet"
    and "parse_header packet = Some (tid, pid, len, uid, fc)"
    and "pid \<noteq> 0"
  shows "parse_packet s packet = (s, Inl (InvalidProtocolId pid))
         \<and> packets (fst (parse_packet s packet)) = packets s
         \<and> transaction_count (fst (parse_packet s packet)) = transaction_count s"
proof -
  from assms(1) have "\<not> (packet = [] \<or> length packet < 8)" by auto
  then have "parse_packet s packet = (s, Inl (InvalidProtocolId pid))"
    using assms(2,3) by (simp add: parse_packet_def)
  then show ?thesis by simp
qed

text \<open>The frame \<^verbatim>\<open>00 01 00 05 00 02 01 03\<close> has the protocol id 5.\<close>

theorem invalid_protocol_id_rejected_witness:
  "parse_packet \<lparr>transaction_count = 1, packets = []\<rparr> [0, 1, 0, 5, 0, 2, 1, 3]
     = (\<lparr>transaction_count = 1, packets = []\<rparr>, Inl (InvalidProtocolId 5))"
proof -
  have h: "parse_header [0, 1, 0, 5, 0, 2, 1, 3] = Some (1, 5, 2, 1, 3)"
    by (simp add: parse_header_def getitem_def)
  show ?thesis
    using invalid_protocol_id_rejected [OF _ h, of "\<lparr>transaction_count = 1, packets = []\<rparr>"]
    by simp
qed

section \<open>Claim C4: scenario A, a read holding registers response\<close>

text \<open>
  Claim C4. The frame \<^verbatim>\<open>00 01 00 00 00 07 01 03 04 00 01 00 FF\<close> is decoded to the
  header \<open>transaction_id = 1\<close>, \<open>protocol_id = 0\<close>, \<open>length = 7\<close>, \<open>unit_id = 1\<close>,
  \<open>function_code = 3\<close> and the payload \<open>byte_count = 4\<close>, \<open>values = [1, 255]\<close>, in
  any parser state.
\<close>

theorem scenario_read_holding_registers:
  "parse_packet s [0, 1, 0, 0, 0, 7, 1, 3, 4, 0, 1, 0, 255] =
     (s\<lparr>transaction_count := transaction_count s + 1,
        packets := packets s @
          [\<lparr>transaction_id = 1, protocol_id = 0, length_field = 7, unit_id = 1,
            function_code = 3, function_name = ''Read Holding Registers'',
            payload = ReadValues 4 [1, 255],
            raw_data = ''000100000007010304000100ff''\<rparr>]\<rparr>,
      Inr \<lparr>transaction_id = 1, protocol_id = 0, length_field = 7, unit_id = 1,
            function_code = 3, function_name = ''Read Holding Registers'',
            payload = ReadValues 4 [1, 255],
            raw_data = ''000100000007010304000100ff''\<rparr>)"
  by (simp add: parse_packet_def parse_header_def getitem_def payload_bytes_def slice_def
      parse_function_def parse_function_try_def read_registers_def range_step.simps
      dict_get_def FUNCTION_CODES_def hex_def hex_digit_def Let_def)

theorem scenario_read_holding_registers_witness:
  "\<exists>p. snd (parse_packet init [0, 1, 0, 0, 0, 7, 1, 3, 4, 0, 1, 0, 255]) = Inr p
       \<and> transaction_id p = 1 \<and> protocol_id p = 0 \<and> length_field p = 7 \<and> unit_id p = 1
       \<and> function_code p = 3 \<and> payload p = ReadValues 4 [1, 255]"
  using scenario_read_holding_registers [of init] by simp

section \<open>Claim C5: bit-oriented reads (function codes 1 and 2)\<close>

text \<open>
  Claim C5 says that the bit vector of a read of coils or discrete inputs always has
  \<open>byte_count * 8\<close> entries. The loop stops at the end of the payload: the payload
  \<^verbatim>\<open>02 FF\<close> announces two data bytes and carries one, and 8 bits are decoded, not 16.
\<close>

theorem bit_read_counterexample:
  "\<exists>vals. parse_function 1 [2, 255] = ReadValues 2 vals \<and> length vals = 8
          \<and> length vals \<noteq> 2 * 8"
  by (simp add: parse_function_def parse_function_try_def getitem_def read_bits_eq)

text \<open>
  Claim C5 as amended: for function code 1 or 2 and a payload that is not empty, with
  \<open>byte_count\<close> its first byte, the decoded vector has
  \<open>8 * min byte_count (len(payload) - 1)\<close> entries, each 0 or 1: entry \<open>k\<close> is bit
  \<open>k mod 8\<close> (least significant first) of the payload byte at index \<open>1 + k div 8\<close>.
  Nothing is trimmed to a requested quantity. The vector has \<open>byte_count * 8\<close> entries
  exactly when the payload holds at least \<open>byte_count\<close> bytes after the first.
\<close>

theorem bit_read_values:
  assumes "fc = 1 \<or> fc = 2" and "pl \<noteq> []"
  shows "parse_function fc pl =
           ReadValues (unat (hd pl))
             (map (\<lambda>k. if bit (pl ! (1 + k div 8)) (k mod 8) then 1 else 0)
                  [0..<8 * min (unat (hd pl)) (length pl - 1)])"
proof -
  from assms(2) have first: "getitem pl 0 = Some (unat (hd pl))"
    by (cases pl) (simp_all add: getitem_def)
  have range: "[1..<min (1 + unat (hd pl)) (length pl)] =
                 [1..<Suc (min (unat (hd pl)) (length pl - 1))]"
    using assms(2) by (cases pl) simp_all
  have "read_bits pl (unat (hd pl)) =
          Some (map (\<lambda>k. if bit (pl ! (1 + k div 8)) (k mod 8) then 1 else 0)
                  [0..<8 * min (unat (hd pl)) (length pl - 1)])"
    unfolding read_bits_eq range by (simp only: concat_bytes_index)
  then show ?thesis
    using assms first by (auto simp add: parse_function_def parse_function_try_def)
qed

theorem bit_read_values_witness:
  "parse_function 1 [1, 5, 9] = ReadValues 1 [1, 0, 1, 0, 0, 0, 0, 0]
   \<and> parse_function 2 [2, 255] = ReadValues 2 [1, 1, 1, 1, 1, 1, 1, 1]"
proof -
  have a: "parse_function 1 [1, 5, 9] =
           ReadValues (unat (hd [1, 5, 9 :: byte]))
             (map (\<lambda>k. if bit ([1, 5, 9 :: byte] ! (1 + k div 8)) (k mod 8) then 1 else 0)
                  [0..<8 * min (unat (hd [1, 5, 9 :: byte])) (length [1, 5, 9 :: byte] - 1)])"
    by (rule bit_read_values) simp_all
  have b: "parse_function 2 [2, 255] =
           ReadValues (unat (hd [2, 255 :: byte]))
             (map (\<lambda>k. if bit ([2, 255 :: byte] ! (1 + k div 8)) (k mod 8) then 1 else 0)
                  [0..<8 * min (unat (hd [2, 255 :: byte])) (length [2, 255 :: byte] - 1)])"
    by (rule bit_read_values) simp_all
  have eight: "[0..<8] = [0, 1, 2, 3, 4, 5, 6, 7]"
    by (simp add: upt_rec)
  show ?thesis
    unfolding a b by (simp add: eight bit_numeral_simps)
qed

section \<open>Claim C6: the sums of the statistics\<close>

text \<open>
  Claim C6. After any list of frames fed to a fresh parser, the snapshot of
  \<^verbatim>\<open>get_statistics\<close> is consistent: either no packet is stored and the snapshot is
  the single field \<open>transaction_count = 0\<close> (there is no count to sum), or it has the
  five fields, the counts of \<open>function_codes\<close> sum to \<open>transaction_count\<close>, and
  \<open>read_operations + write_operations\<close> is at most \<open>transaction_count\<close>.
\<close>

theorem statistics_sums:
  "get_statistics (parse_all init frames) = [(''transaction_count'', Count 0)]
   \<or> (\<exists>fcs ids r w.
         get_statistics (parse_all init frames) =
           [(''transaction_count'', Count (sum_list (map snd fcs))),
            (''function_codes'', Counts fcs),
            (''unit_ids'', Ids ids),
            (''read_operations'', Count r),
            (''write_operations'', Count w)]
         \<and> r + w \<le> sum_list (map snd fcs))"
proof -
  have "transaction_count init = length (packets init)"
    by (simp add: init_def)
  then have tc: "transaction_count (parse_all init frames) =
                   length (packets (parse_all init frames))"
    by (rule parse_all_keeps_count)
  show ?thesis
  proof (cases "packets (parse_all init frames) = []")
    case True
    then show ?thesis by (simp add: get_statistics_def)
  next
    case False
    then have "get_statistics (parse_all init frames) =
           [(''transaction_count'',
               Count (sum_list (map snd (function_counts (count_packets (packets (parse_all init frames))))))),
            (''function_codes'', Counts (function_counts (count_packets (packets (parse_all init frames))))),
            (''unit_ids'', Ids (unit_ids (count_packets (packets (parse_all init frames))))),
            (''read_operations'', Count (read_operations (count_packets (packets (parse_all init frames))))),
            (''write_operations'', Count (write_operations (count_packets (packets (parse_all init frames)))))]"
      by (simp add: get_statistics_def Let_def tc count_packets_sum)
    moreover have "read_operations (count_packets (packets (parse_all init frames)))
                   + write_operations (count_packets (packets (parse_all init frames)))
                   \<le> sum_list (map snd (function_counts (count_packets (packets (parse_all init frames)))))"
      by (simp add: count_packets_sum count_packets_operations)
    ultimately show ?thesis by blast
  qed
qed

text \<open>
  Three frames: a read of holding registers, a frame with the unknown function code 99,
  and a frame with the protocol id 5, which is rejected.
\<close>

theorem statistics_sums_witness:
  "get_statistics
     (parse_all init [[0, 1, 0, 0, 0, 2, 1, 3], [0, 2, 0, 0, 0, 2, 1, 99],
                      [0, 3, 0, 5, 0, 2, 1, 3]]) =
     [(''transaction_count'', Count 2),
      (''function_codes'', Counts [(3, 1), (99, 1)]),
      (''unit_ids'', Ids {1}),
      (''read_operations'', Count 1),
      (''write_operations'', Count 0)]
   \<and> (\<exists>fcs ids r w.
         get_statistics
           (parse_all init [[0, 1, 0, 0, 0, 2, 1, 3], [0, 2, 0, 0, 0, 2, 1, 99],
                            [0, 3, 0, 5, 0, 2, 1, 3]]) =
           [(''transaction_count'', Count (sum_list (map snd fcs))),
            (''function_codes'', Counts fcs),
            (''unit_ids'', Ids ids),
            (''read_operations'', Count r),
            (''write_operations'', Count w)]
         \<and> r + w \<le> sum_list (map snd fcs))"
proof -
  have run: "get_statistics
     (parse_all init [[0, 1, 0, 0, 0, 2, 1, 3], [0, 2, 0, 0, 0, 2, 1, 99],
                      [0, 3, 0, 5, 0, 2, 1, 3]]) =
     [(''transaction_count'', Count 2),
      (''function_codes'', Counts [(3, 1), (99, 1)]),
      (''unit_ids'', Ids {1}),
      (''read_operations'', Count 1),
      (''write_operations'', Count 0)]"
    by (simp add: parse_all_def parse_packet_def parse_header_def getitem_def
        payload_bytes_def slice_def parse_function_def parse_function_try_def init_def
        get_statistics_def count_packets_def count_packet_def dict_get_def Let_def)
  from statistics_sums [of "[[0, 1, 0, 0, 0, 2, 1, 3], [0, 2, 0, 0, 0, 2, 1, 99],
                      [0, 3, 0, 5, 0, 2, 1, 3]]"]
  show ?thesis
    unfolding run by simp
qed

section \<open>Claim C7: the fields of the statistics\<close>

text \<open>
  Claim C7 says that \<^verbatim>\<open>get_statistics\<close> returns all five fields in every parser
  state, a fresh one included. For a fresh parser the early return gives a dict with the
  single key \<open>transaction_count\<close>.
\<close>

theorem get_statistics_fresh_counterexample:
  "map fst (get_statistics init) = [''transaction_count'']
   \<and> map_of (get_statistics init) ''function_codes'' = None
   \<and> map_of (get_statistics init) ''unit_ids'' = None
   \<and> map_of (get_statistics init) ''read_operations'' = None
   \<and> map_of (get_statistics init) ''write_operations'' = None"
  by (simp add: get_statistics_def init_def)

text \<open>
  Claim C7 as amended: \<^verbatim>\<open>get_statistics\<close> returns the five fields
  \<open>transaction_count\<close>, \<open>function_codes\<close>, \<open>unit_ids\<close>, \<open>read_operations\<close> and
  \<open>write_operations\<close> in every parser state that holds at least one stored packet; in a
  state with no stored packet it returns the single field \<open>transaction_count\<close>, with the
  value 0.
\<close>

theorem get_statistics_fields:
  "get_statistics s =
     (if packets s = [] then [(''transaction_count'', Count 0)]
      else [(''transaction_count'', Count (transaction_count s)),
            (''function_codes'', Counts (function_counts (count_packets (packets s)))),
            (''unit_ids'', Ids (unit_ids (count_packets (packets s)))),
            (''read_operations'', Count (read_operations (count_packets (packets s)))),
            (''write_operations'', Count (write_operations (count_packets (packets s))))])
   \<and> map fst (get_statistics s) =
     (if packets s = [] then [''transaction_count'']
      else [''transaction_count'', ''function_codes'', ''unit_ids'',
            ''read_operations'', ''write_operations''])"
  by (simp add: get_statistics_def Let_def)

theorem get_statistics_fields_witness:
  "map fst (get_statistics (fst (parse_packet init [0, 1, 0, 0, 0, 2, 1, 3]))) =
     [''transaction_count'', ''function_codes'', ''unit_ids'',
      ''read_operations'', ''write_operations'']"
proof -
  have "packets (fst (parse_packet init [0, 1, 0, 0, 0, 2, 1, 3])) \<noteq> []"
    by (simp add: parse_packet_def parse_header_def getitem_def Let_def)
  then show ?thesis
    using get_statistics_fields [of "fst (parse_packet init [0, 1, 0, 0, 0, 2, 1, 3])"]
    by simp
qed

section \<open>Claim C8: device identification (function code 43)\<close>

text \<open>
  Claim C8. For function code 43 and a payload of at least 6 bytes the decoder never
  reads past the end of the payload: the \<^verbatim>\<open>try\<close> block returns a device
  identification (an index past the end would make it \<open>None\<close>), and the objects it
  returns are those of \<open>spec_objects\<close>, that is the entries that the bytes after the
  header hold in full, up to \<open>object_count\<close> of them, ending at the first entry whose
  declared length overruns the remaining bytes. The decoded objects, with their two
  header bytes each, fit in the payload after its six header bytes.
\<close>

theorem device_objects_in_bounds:
  assumes "6 \<le> length pl"
  shows "parse_function_try 43 pl =
           Some (DeviceIdentification (unat (pl ! 0)) (unat (pl ! 1)) (unat (pl ! 2))
                   (unat (pl ! 3)) (unat (pl ! 4))
                   (spec_objects (unat (pl ! 5)) (drop 6 pl)))
         \<and> parse_function 43 pl =
           DeviceIdentification (unat (pl ! 0)) (unat (pl ! 1)) (unat (pl ! 2))
             (unat (pl ! 3)) (unat (pl ! 4))
             (spec_objects (unat (pl ! 5)) (drop 6 pl))
         \<and> sum_list (map (\<lambda>ob. 2 + length (object_value ob))
                 (spec_objects (unat (pl ! 5)) (drop 6 pl))) \<le> length pl - 6"
proof -
  have g: "getitem pl i = Some (unat (pl ! i))" if "i < 6" for i
    using that assms by (simp add: getitem_def)
  have tried: "parse_function_try 43 pl =
           Some (DeviceIdentification (unat (pl ! 0)) (unat (pl ! 1)) (unat (pl ! 2))
                   (unat (pl ! 3)) (unat (pl ! 4))
                   (spec_objects (unat (pl ! 5)) (drop 6 pl)))"
    using assms by (simp add: parse_function_try_def g read_objects_spec)
  have fit: "sum_list (map (\<lambda>ob. 2 + length (object_value ob))
                 (spec_objects (unat (pl ! 5)) (drop 6 pl))) \<le> length pl - 6"
    using spec_objects_fit [of "unat (pl ! 5)" "drop 6 pl"] by simp
  from tried fit show ?thesis
    by (simp add: parse_function_def)
qed

text \<open>
  Scenario D: \<open>object_count = 2\<close>, one complete object (id 0, the three bytes
  \<^verbatim>\<open>41 42 43\<close>) and a second one that declares 5 bytes and has 1. One object is
  decoded.
\<close>

theorem device_objects_in_bounds_witness:
  "parse_function 43 [14, 1, 1, 0, 0, 2, 0, 3, 65, 66, 67, 1, 5, 68] =
     DeviceIdentification 14 1 1 0 0 [\<lparr>object_id = 0, object_value = [65, 66, 67]\<rparr>]"
proof -
  have l: "6 \<le> length [14, 1, 1, 0, 0, 2, 0, 3, 65, 66, 67, 1, 5, 68 :: byte]"
    by simp
  have n: "unat ([14, 1, 1, 0, 0, 2, 0, 3, 65, 66, 67, 1, 5, 68 :: byte] ! 5) = Suc (Suc 0)"
    by simp
  have r: "drop 6 [14, 1, 1, 0, 0, 2, 0, 3, 65, 66, 67, 1, 5, 68 :: byte] =
             [0, 3, 65, 66, 67, 1, 5, 68]"
    by simp
  have s: "spec_objects (Suc (Suc 0)) [0, 3, 65, 66, 67, 1, 5, 68] =
             [\<lparr>object_id = 0, object_value = [65, 66, 67]\<rparr>]"
    by (simp add: decode_ascii_def)
  from device_objects_in_bounds [OF l]
  have "parse_function 43 [14, 1, 1, 0, 0, 2, 0, 3, 65, 66, 67, 1, 5, 68] =
           DeviceIdentification
             (unat ([14, 1, 1, 0, 0, 2, 0, 3, 65, 66, 67, 1, 5, 68 :: byte] ! 0))
             (unat ([14, 1, 1, 0, 0, 2, 0, 3, 65, 66, 67, 1, 5, 68 :: byte] ! 1))
             (unat ([14, 1, 1, 0, 0, 2, 0, 3, 65, 66, 67, 1, 5, 68 :: byte] ! 2))
             (unat ([14, 1, 1, 0, 0, 2, 0, 3, 65, 66, 67, 1, 5, 68 :: byte] ! 3))
             (unat ([14, 1, 1, 0, 0, 2, 0, 3, 65, 66, 67, 1, 5, 68 :: byte] ! 4))
             (spec_objects (unat ([14, 1, 1, 0, 0, 2, 0, 3, 65, 66, 67, 1, 5, 68 :: byte] ! 5))
                (drop 6 [14, 1, 1, 0, 0, 2, 0, 3, 65, 66, 67, 1, 5, 68]))"
    by (rule conjunct1 [OF conjunct2])
  then show ?thesis
    unfolding n r s by simp
qed

section \<open>Claim C9: payloads shorter than the function family requires\<close>

text \<open>
  Claim C9 says that every payload shorter than its function family requires is decoded
  to an error result. A read requires its \<open>byte_count\<close> byte and \<open>byte_count\<close> data
  bytes (\<open>family_requires\<close>); the frame \<^verbatim>\<open>00 01 00 00 00 04 01 03 04 00\<close> (function
  code 3, payload \<^verbatim>\<open>04 00\<close>) announces 4 data bytes and carries 1. It passes the
  length guard and is decoded to \<open>byte_count = 4\<close> with no value: no error result.
\<close>

theorem short_payload_counterexample:
  "length (payload_bytes [0, 1, 0, 0, 0, 4, 1, 3, 4, 0] 4)
     < family_requires 3 (payload_bytes [0, 1, 0, 0, 0, 4, 1, 3, 4, 0] 4)
   \<and> parse_function_try 3 (payload_bytes [0, 1, 0, 0, 0, 4, 1, 3, 4, 0] 4) =
       Some (ReadValues 4 [])
   \<and> (\<exists>p. parse_packet init [0, 1, 0, 0, 0, 4, 1, 3, 4, 0] =
          (\<lparr>transaction_count = 1, packets = [p]\<rparr>, Inr p)
        \<and> payload p = ReadValues 4 []
        \<and> (\<forall>msg. payload p \<noteq> Error msg))"
  by (simp add: parse_packet_def parse_header_def getitem_def payload_bytes_def slice_def
      parse_function_def parse_function_try_def init_def family_requires_def
      read_registers_def range_step.simps Let_def)

text \<open>
  Claim C9 as amended: for every frame of at least 8 bytes with protocol id 0 whose
  payload is shorter than its function family requires, payload decoding raises no
  exception and the frame is recorded. The result is the family's
  \<^verbatim>\<open>'Payload too short ...'\<close> error when the payload is below the fixed length guard
  (no byte for codes 1 to 4, fewer than 4 bytes for codes 5, 6, 15 and 16, fewer than 6
  for code 43: for instance function code 3 with no payload byte). A read (codes 1 to 4)
  that holds its \<open>byte_count\<close> byte and fewer than \<open>byte_count\<close> data bytes is not an
  error: it is decoded to the values the bytes present give (8 bits for each data byte,
  one register for each complete pair). In both cases the parser continues: the results
  of the frame loop are this frame's packet followed by what the frames after it are
  decoded to without it.
\<close>

theorem short_payload_decoding:
  assumes "8 \<le> length packet"
    and "parse_header packet = Some (tid, 0, len, uid, fc)"
    and "pl = payload_bytes packet len"
    and "length pl < family_requires fc pl"
  shows "\<exists>p. parse_function_try fc pl = Some (payload p)
           \<and> parse_packet s packet =
               (s\<lparr>transaction_count := transaction_count s + 1,
                  packets := packets s @ [p]\<rparr>, Inr p)
           \<and> payload p =
               (if length pl < min_payload fc then Error (short_message fc)
                else ReadValues (unat (hd pl))
                       (if fc \<in> set [1, 2]
                        then map (\<lambda>k. if bit (pl ! (1 + k div 8)) (k mod 8) then 1 else 0)
                               [0..<8 * (length pl - 1)]
                        else map (\<lambda>k. push_bit 8 (unat (pl ! (1 + 2 * k)))
                                        OR unat (pl ! (2 + 2 * k)))
                               [0..<(length pl - 1) div 2]))
           \<and> (\<forall>rest. snd (parse_frames s (packet # rest)) = p # snd (parse_frames s rest))"
proof -
  define p where "p = \<lparr>transaction_id = tid, protocol_id = 0, length_field = len, unit_id = uid,
                  function_code = fc,
                  function_name = dict_get FUNCTION_CODES fc (''Unknown ('' @ str_nat fc @ '')''),
                  payload = parse_function fc (payload_bytes packet len),
                  raw_data = hex packet\<rparr>"
  have sel: "payload p = parse_function fc pl"
    by (simp add: p_def assms(3))
  have run: "parse_packet s packet =
               (s\<lparr>transaction_count := transaction_count s + 1,
                  packets := packets s @ [p]\<rparr>, Inr p)"
    unfolding p_def by (rule parse_packet_accepted [OF assms(1,2)])
  have tried: "parse_function_try fc pl = Some (payload p)"
    unfolding sel by (rule parse_function_from_try)
  have loop: "\<forall>rest. snd (parse_frames s (packet # rest)) = p # snd (parse_frames s rest)"
    using parse_frames_accepted [OF run] by blast
  have result: "parse_function_try fc pl =
          Some (if length pl < min_payload fc then Error (short_message fc)
                else ReadValues (unat (hd pl))
                       (if fc \<in> set [1, 2]
                        then map (\<lambda>k. if bit (pl ! (1 + k div 8)) (k mod 8) then 1 else 0)
                               [0..<8 * (length pl - 1)]
                        else map (\<lambda>k. push_bit 8 (unat (pl ! (1 + 2 * k)))
                                        OR unat (pl ! (2 + 2 * k)))
                               [0..<(length pl - 1) div 2]))"
  proof (cases "length pl < min_payload fc")
    case True
    then show ?thesis
      by (simp only: short_payload_message if_True)
  next
    case False
    have reads: "fc \<in> set [1, 2, 3, 4]"
    proof (rule ccontr)
      assume other: "fc \<notin> set [1, 2, 3, 4]"
      then have "family_requires fc pl = min_payload fc"
        by (auto simp: family_requires_def min_payload_def)
      with assms(4) False show False
        by simp
    qed
    with False have ne: "pl \<noteq> []"
      by (auto simp: min_payload_def)
    from reads ne assms(4) have trunc: "length pl < 1 + unat (hd pl)"
      by (cases pl) (simp_all only: family_requires_def if_True list.case list.sel)
    then have b: "min (unat (hd pl)) (length pl - 1) = length pl - 1"
      by simp
    from trunc have m: "min (1 + unat (hd pl)) (length pl) = length pl"
      by simp
    have "min (length pl div 2) ((length pl - 1) div 2) = (length pl - 1) div 2"
      by arith
    then have r: "min (min (1 + unat (hd pl)) (length pl) div 2) ((length pl - 1) div 2) =
                   (length pl - 1) div 2"
      by (simp only: m)
    from parse_function_try_read [OF reads ne] False show ?thesis
      by (simp only: b r if_False)
  qed
  from tried result have "payload p =
               (if length pl < min_payload fc then Error (short_message fc)
                else ReadValues (unat (hd pl))
                       (if fc \<in> set [1, 2]
                        then map (\<lambda>k. if bit (pl ! (1 + k div 8)) (k mod 8) then 1 else 0)
                               [0..<8 * (length pl - 1)]
                        else map (\<lambda>k. push_bit 8 (unat (pl ! (1 + 2 * k)))
                                        OR unat (pl ! (2 + 2 * k)))
                               [0..<(length pl - 1) div 2]))"
    by simp
  with tried run loop show ?thesis
    by blast
qed

text \<open>
  Scenario C: the frame \<^verbatim>\<open>00 01 00 00 00 02 01 03\<close> (function code 3, no payload
  byte) is decoded to the error and the frame of scenario A after it to its two
  registers. The frame \<^verbatim>\<open>00 01 00 00 00 06 01 03 04 00 01 00\<close> announces 4 data
  bytes and carries 3: one register is decoded.
\<close>

theorem short_payload_decoding_witness:
  "(\<exists>p q. parse_packet init [0, 1, 0, 0, 0, 2, 1, 3] =
            (init\<lparr>transaction_count := transaction_count init + 1,
                  packets := packets init @ [p]\<rparr>, Inr p)
          \<and> payload p = Error ''Payload too short for read response''
          \<and> snd (parse_frames init
                   [[0, 1, 0, 0, 0, 2, 1, 3], [0, 1, 0, 0, 0, 7, 1, 3, 4, 0, 1, 0, 255]]) = [p, q]
          \<and> payload q = ReadValues 4 [1, 255])
   \<and> (\<exists>p. parse_packet init [0, 1, 0, 0, 0, 6, 1, 3, 4, 0, 1, 0] =
            (init\<lparr>transaction_count := transaction_count init + 1,
                  packets := packets init @ [p]\<rparr>, Inr p)
          \<and> payload p = ReadValues 4 [1])"
proof -
  have l1: "8 \<le> length [0, 1, 0, 0, 0, 2, 1, 3 :: byte]"
    by simp
  have h1: "parse_header [0, 1, 0, 0, 0, 2, 1, 3] = Some (1, 0, 2, 1, 3)"
    by (simp add: parse_header_def getitem_def)
  have p1: "[] = payload_bytes [0, 1, 0, 0, 0, 2, 1, 3] 2"
    by (simp add: payload_bytes_def slice_def)
  have s1: "length ([] :: bytes) < family_requires 3 []"
    by (simp add: family_requires_def)
  have m1: "length ([] :: bytes) < min_payload 3"
    by (simp add: min_payload_def)
  have a: "snd (parse_frames init [[0, 1, 0, 0, 0, 7, 1, 3, 4, 0, 1, 0, 255]]) =
             [\<lparr>transaction_id = 1, protocol_id = 0, length_field = 7, unit_id = 1,
               function_code = 3, function_name = ''Read Holding Registers'',
               payload = ReadValues 4 [1, 255],
               raw_data = ''000100000007010304000100ff''\<rparr>]"
    by (simp add: parse_frames_def frame_step_def parse_packet_def parse_header_def getitem_def
        payload_bytes_def slice_def parse_function_def parse_function_try_def
        read_registers_def range_step.simps dict_get_def FUNCTION_CODES_def hex_def
        hex_digit_def init_def Let_def)
  from short_payload_decoding [OF l1 h1 p1 s1, of init]
  obtain p where run1: "parse_packet init [0, 1, 0, 0, 0, 2, 1, 3] =
            (init\<lparr>transaction_count := transaction_count init + 1,
                  packets := packets init @ [p]\<rparr>, Inr p)"
    and pay1: "payload p =
               (if length ([] :: bytes) < min_payload 3 then Error (short_message 3)
                else ReadValues (unat (hd ([] :: bytes)))
                       (if (3::nat) \<in> set [1, 2]
                        then map (\<lambda>k. if bit (([] :: bytes) ! (1 + k div 8)) (k mod 8)
                                        then 1 else 0)
                               [0..<8 * (length ([] :: bytes) - 1)]
                        else map (\<lambda>k. push_bit 8 (unat (([] :: bytes) ! (1 + 2 * k)))
                                        OR unat (([] :: bytes) ! (2 + 2 * k)))
                               [0..<(length ([] :: bytes) - 1) div 2]))"
    and loop1: "\<forall>rest. snd (parse_frames init ([0, 1, 0, 0, 0, 2, 1, 3] # rest)) =
                       p # snd (parse_frames init rest)"
    by blast
  from pay1 m1 have e1: "payload p = Error ''Payload too short for read response''"
    by (simp add: short_message_def)
  from loop1 a have r1: "snd (parse_frames init
                   [[0, 1, 0, 0, 0, 2, 1, 3], [0, 1, 0, 0, 0, 7, 1, 3, 4, 0, 1, 0, 255]]) =
             [p, \<lparr>transaction_id = 1, protocol_id = 0, length_field = 7, unit_id = 1,
               function_code = 3, function_name = ''Read Holding Registers'',
               payload = ReadValues 4 [1, 255],
               raw_data = ''000100000007010304000100ff''\<rparr>]"
    by simp
  have first: "\<exists>p q. parse_packet init [0, 1, 0, 0, 0, 2, 1, 3] =
            (init\<lparr>transaction_count := transaction_count init + 1,
                  packets := packets init @ [p]\<rparr>, Inr p)
          \<and> payload p = Error ''Payload too short for read response''
          \<and> snd (parse_frames init
                   [[0, 1, 0, 0, 0, 2, 1, 3], [0, 1, 0, 0, 0, 7, 1, 3, 4, 0, 1, 0, 255]]) = [p, q]
          \<and> payload q = ReadValues 4 [1, 255]"
  proof (intro exI conjI)
    show "parse_packet init [0, 1, 0, 0, 0, 2, 1, 3] =
            (init\<lparr>transaction_count := transaction_count init + 1,
                  packets := packets init @ [p]\<rparr>, Inr p)"
      by (rule run1)
    show "payload p = Error ''Payload too short for read response''"
      by (rule e1)
    show "snd (parse_frames init
                   [[0, 1, 0, 0, 0, 2, 1, 3], [0, 1, 0, 0, 0, 7, 1, 3, 4, 0, 1, 0, 255]]) =
             [p, \<lparr>transaction_id = 1, protocol_id = 0, length_field = 7, unit_id = 1,
               function_code = 3, function_name = ''Read Holding Registers'',
               payload = ReadValues 4 [1, 255],
               raw_data = ''000100000007010304000100ff''\<rparr>]"
      by (rule r1)
    show "payload \<lparr>transaction_id = 1, protocol_id = 0, length_field = 7, unit_id = 1,
               function_code = 3, function_name = ''Read Holding Registers'',
               payload = ReadValues 4 [1, 255],
               raw_data = ''000100000007010304000100ff''\<rparr> = ReadValues 4 [1, 255]"
      by simp
  qed
  have l2: "8 \<le> length [0, 1, 0, 0, 0, 6, 1, 3, 4, 0, 1, 0 :: byte]"
    by simp
  have h2: "parse_header [0, 1, 0, 0, 0, 6, 1, 3, 4, 0, 1, 0] = Some (1, 0, 6, 1, 3)"
    by (simp add: parse_header_def getitem_def)
  have p2: "[4, 0, 1, 0] = payload_bytes [0, 1, 0, 0, 0, 6, 1, 3, 4, 0, 1, 0] 6"
    by (simp add: payload_bytes_def slice_def)
  have s2: "length [4, 0, 1, 0 :: byte] < family_requires 3 [4, 0, 1, 0]"
    by (simp add: family_requires_def)
  have m2: "\<not> length [4, 0, 1, 0 :: byte] < min_payload 3"
    by (simp add: min_payload_def)
  from short_payload_decoding [OF l2 h2 p2 s2, of init]
  obtain p' where run2: "parse_packet init [0, 1, 0, 0, 0, 6, 1, 3, 4, 0, 1, 0] =
            (init\<lparr>transaction_count := transaction_count init + 1,
                  packets := packets init @ [p']\<rparr>, Inr p')"
    and pay2: "payload p' =
               (if length [4, 0, 1, 0 :: byte] < min_payload 3 then Error (short_message 3)
                else ReadValues (unat (hd [4, 0, 1, 0 :: byte]))
                       (if (3::nat) \<in> set [1, 2]
                        then map (\<lambda>k. if bit ([4, 0, 1, 0 :: byte] ! (1 + k div 8)) (k mod 8)
                                        then 1 else 0)
                               [0..<8 * (length [4, 0, 1, 0 :: byte] - 1)]
                        else map (\<lambda>k. push_bit 8 (unat ([4, 0, 1, 0 :: byte] ! (1 + 2 * k)))
                                        OR unat ([4, 0, 1, 0 :: byte] ! (2 + 2 * k)))
                               [0..<(length [4, 0, 1, 0 :: byte] - 1) div 2]))"
    by blast
  from pay2 m2 have e2: "payload p' = ReadValues 4 [1]"
    by simp
  from run2 e2 have second: "\<exists>p. parse_packet init [0, 1, 0, 0, 0, 6, 1, 3, 4, 0, 1, 0] =
            (init\<lparr>transaction_count := transaction_count init + 1,
                  packets := packets init @ [p]\<rparr>, Inr p)
          \<and> payload p = ReadValues 4 [1]"
    by blast
  from first second show ?thesis
    by blast
qed

section \<open>Claim C10: a declared length beyond the end of the frame\<close>

text \<open>
  Claim C10. When a frame of at least 8 bytes with protocol id 0 declares a length with
  \<open>8 + length - 2\<close> above the frame size, \<^verbatim>\<open>parse_packet\<close> decodes the rest of the
  frame after byte 8 as the payload, returns a parsed packet (no rejection), appends it to
  the store and counts it in the statistics.
\<close>

theorem overlong_length_falls_back:
  assumes "8 \<le> length packet"
    and "parse_header packet = Some (tid, 0, len, uid, fc)"
    and "length packet < 8 + len - 2"
  shows "\<exists>p. parse_packet s packet =
               (s\<lparr>transaction_count := transaction_count s + 1,
                  packets := packets s @ [p]\<rparr>, Inr p)
           \<and> payload p = parse_function fc (drop 8 packet)
           \<and> length_field p = len \<and> unit_id p = uid \<and> function_code p = fc
           \<and> get_statistics (fst (parse_packet s packet)) =
               [(''transaction_count'', Count (transaction_count s + 1)),
                (''function_codes'',
                   Counts (function_counts (count_packet p (count_packets (packets s))))),
                (''unit_ids'', Ids (unit_ids (count_packet p (count_packets (packets s))))),
                (''read_operations'',
                   Count (read_operations (count_packet p (count_packets (packets s))))),
                (''write_operations'',
                   Count (write_operations (count_packet p (count_packets (packets s)))))]"
proof -
  from assms(3) have pl: "payload_bytes packet len = drop 8 packet"
    by (simp add: payload_bytes_def)
  show ?thesis
    unfolding parse_packet_accepted [OF assms(1,2)] pl
    by (rule exI, intro conjI, rule refl) (simp_all add: get_statistics_def count_packets_snoc Let_def)
qed

theorem overlong_length_falls_back_witness:
  "\<exists>p. parse_packet init [0, 1, 0, 0, 0, 7, 1, 3, 2, 0] =
         (\<lparr>transaction_count = 1, packets = [p]\<rparr>, Inr p)
     \<and> payload p = ReadValues 2 [] \<and> length_field p = 7
     \<and> get_statistics (fst (parse_packet init [0, 1, 0, 0, 0, 7, 1, 3, 2, 0])) =
         [(''transaction_count'', Count 1), (''function_codes'', Counts [(3, 1)]),
          (''unit_ids'', Ids {1}), (''read_operations'', Count 1),
          (''write_operations'', Count 0)]"
proof -
  have h: "parse_header [0, 1, 0, 0, 0, 7, 1, 3, 2, 0] = Some (1, 0, 7, 1, 3)"
    by (simp add: parse_header_def getitem_def)
  have f: "parse_function 3 [2, 0] = ReadValues 2 []"
    by (simp add: parse_function_def parse_function_try_def getitem_def read_registers_def
        range_step.simps)
  from overlong_length_falls_back [OF _ h, of init]
  obtain p where p: "parse_packet init [0, 1, 0, 0, 0, 7, 1, 3, 2, 0] =
         (init\<lparr>transaction_count := transaction_count init + 1, packets := packets init @ [p]\<rparr>, Inr p)"
    "payload p = parse_function 3 (drop 8 [0, 1, 0, 0, 0, 7, 1, 3, 2, 0])"
    "length_field p = 7" "unit_id p = 1" "function_code p = 3"
    "get_statistics (fst (parse_packet init [0, 1, 0, 0, 0, 7, 1, 3, 2, 0])) =
               [(''transaction_count'', Count (transaction_count init + 1)),
                (''function_codes'',
                   Counts (function_counts (count_packet p (count_packets (packets init))))),
                (''unit_ids'', Ids (unit_ids (count_packet p (count_packets (packets init))))),
                (''read_operations'',
                   Count (read_operations (count_packet p (count_packets (packets init))))),
                (''write_operations'',
                   Count (write_operations (count_packet p (count_packets (packets init)))))]"
    by auto
  show ?thesis
    apply (rule exI [of _ p])
    using p f
    by (simp add: init_def count_packets_def count_packet_def Let_def dict_get_def)
qed

end
